theory Spec2Isabelle
  imports Complex_Main "HOL-Library.Sublist"
begin

section \<open>The session store (server/src/sessionManager.ts)\<close>

text \<open>
  The store is an SQLite database with two tables, \<open>sessions\<close> and \<open>data_points\<close>. SQL
  \<open>NULL\<close> is \<open>None\<close>. Times are the integer milliseconds of \<open>Date.now()\<close>.

  A JavaScript \<open>number\<close> that the monitor hands to the store is a finite number or
  \<open>NaN\<close>. Every finite double is a real number, so the finite ones are taken as reals.
  The two infinities are not modelled: the store keeps them like finite numbers, but what
  the engine's \<open>AVG\<close> makes of them is decided inside the engine.
\<close>

datatype js_number = Num real | NaN

record DataPoint =
  timestamp :: int
  cpu :: js_number
  memory :: js_number
  ppid :: "int option"

text \<open>
  A row of \<open>data_points\<close>. The columns \<open>cpu\<close> and \<open>memory\<close> are declared
  \<open>REAL NOT NULL\<close>, and SQLite stores \<open>NaN\<close> as \<open>NULL\<close>, so a cell holds a number.
\<close>

record data_points_row =
  rowid :: nat
  sessionId :: string
  timestamp_col :: int
  cpu_col :: real
  memory_col :: real
  ppid_col :: "int option"

text \<open>
  What the engine computes in double precision from finite numbers: a finite double, which
  is a whole multiple \<open>m / 2 ^ k\<close> of a power of two, or an infinity when the computation
  overflows.
\<close>

datatype double = Finite int nat | PosInfinity | NegInfinity


text \<open>
  A row of \<open>sessions\<close>. \<open>avgCpu\<close> and \<open>avgMemory\<close> hold what \<open>AVG\<close> computed;
  \<open>maxCpu\<close> and \<open>maxMemory\<close> hold what \<open>MAX\<close> selected, one of the stored numbers.
\<close>

record Session =
  session_id :: string
  name :: string
  pid :: int
  processName :: string
  command :: string
  startTime :: int
  endTime :: "int option"
  avgCpu :: "double option"
  maxCpu :: "real option"
  avgMemory :: "double option"
  maxMemory :: "real option"

text \<open>
  Two things are decided by the SQLite engine behind \<open>new Database(DB_PATH)\<close> and not by
  the code of the repository. The model takes both as fields of the database that no
  operation changes, and every statement below is made for all their values unless it
  says otherwise.

  The table \<open>data_points\<close> declares \<open>FOREIGN KEY (sessionId) REFERENCES sessions(id)
  ON DELETE CASCADE\<close>. SQLite checks a declared foreign key only on a connection whose
  \<open>foreign_keys\<close> setting is on. \<open>initDatabase\<close> issues no \<open>PRAGMA\<close>, so the
  setting is the default the engine was built with: off in a stock SQLite build, on in
  a build compiled with \<open>SQLITE_DEFAULT_FOREIGN_KEYS=1\<close> (the build that the
  better-sqlite3 package bundles).

  \<open>AVG\<close> over the values of one or more rows is computed in double precision: the sum is
  rounded and can overflow, and the algorithm of the summation is the engine's. The field
  \<open>engine_avg\<close> is that function, from the values in the order of their insertion; over
  numbers its result is a double and never \<open>NULL\<close>.
\<close>

record database =
  sessions :: "Session list"
  data_points :: "data_points_row list"
  data_points_seq :: nat
  foreign_keys :: bool
  engine_avg :: "real list \<Rightarrow> double"

text \<open>
  The constraint violations of the two tables: a second primary key, a sample for a session
  that does not exist (when foreign keys are enforced), and \<open>NULL\<close> in the named
  \<open>NOT NULL\<close> column.
\<close>

datatype SqliteError = ConstraintPrimaryKey | ConstraintForeignKey | ConstraintNotNull string

text \<open>
  \<open>initDatabase\<close> on a new database file: both tables are created empty. (On an
  existing file \<open>CREATE TABLE IF NOT EXISTS\<close> keeps the rows that earlier runs wrote through
  the operations below.) The arguments are the engine's default for \<open>foreign_keys\<close> and
  its \<open>AVG\<close>.
\<close>

definition initDatabase :: "bool \<Rightarrow> (real list \<Rightarrow> double) \<Rightarrow> database" where
  "initDatabase fk avg =
     \<lparr>sessions = [], data_points = [], data_points_seq = 0, foreign_keys = fk, engine_avg = avg\<rparr>"

definition session_ids :: "database \<Rightarrow> string set" where
  "session_ids db = set (map session_id (sessions db))"

text \<open>
  \<open>createSession\<close>: the id (\<open>uuidv4()\<close>) and the start time (\<open>Date.now()\<close>) are
  inputs. The \<open>INSERT\<close> fails on an id that is already a primary key.
\<close>

definition createSession ::
  "database \<Rightarrow> string \<Rightarrow> int \<Rightarrow> string \<Rightarrow> int \<Rightarrow> string \<Rightarrow> string \<Rightarrow> SqliteError + database \<times> Session"
where
  "createSession db uuid now nm p pname cmd =
     (if uuid \<in> session_ids db then Inl ConstraintPrimaryKey
      else
        let s = \<lparr>session_id = uuid, name = nm, pid = p, processName = pname, command = cmd,
                 startTime = now, endTime = None, avgCpu = None, maxCpu = None,
                 avgMemory = None, maxMemory = None\<rparr>
        in Inr (db\<lparr>sessions := sessions db @ [s]\<rparr>, s))"

text \<open>
  \<open>addDataPoint\<close>: one \<open>INSERT\<close> into \<open>data_points\<close>. The function itself checks
  nothing, so it fails where the engine refuses the row: a \<open>NaN\<close> is bound as \<open>NULL\<close>
  and violates \<open>NOT NULL\<close> (the columns are checked in their order, before the foreign
  key), and a session id without a session row violates the foreign key when foreign keys
  are enforced. The session id is a string and the timestamp a value of \<open>Date.now()\<close>,
  which are never \<open>NULL\<close>; \<open>ppid\<close> may be.
\<close>

definition addDataPoint ::
  "database \<Rightarrow> string \<Rightarrow> int \<Rightarrow> js_number \<Rightarrow> js_number \<Rightarrow> int option \<Rightarrow> SqliteError + database"
where
  "addDataPoint db sid ts c m pp =
     (case c of
        NaN \<Rightarrow> Inl (ConstraintNotNull ''cpu'')
      | Num x \<Rightarrow>
          (case m of
             NaN \<Rightarrow> Inl (ConstraintNotNull ''memory'')
           | Num y \<Rightarrow>
               if foreign_keys db \<and> sid \<notin> session_ids db then Inl ConstraintForeignKey
               else Inr (db\<lparr>data_points := data_points db @
                                [\<lparr>rowid = Suc (data_points_seq db), sessionId = sid,
                                  timestamp_col = ts, cpu_col = x, memory_col = y, ppid_col = pp\<rparr>],
                             data_points_seq := Suc (data_points_seq db)\<rparr>)))"

text \<open>
  The SQL aggregates: \<open>NULL\<close> over no rows; over some rows \<open>AVG\<close> is the engine's, and
  \<open>MAX\<close> is the greatest of the values.
\<close>

fun sql_avg :: "(real list \<Rightarrow> double) \<Rightarrow> real list \<Rightarrow> double option" where
  "sql_avg avg [] = None"
| "sql_avg avg (x # xs) = Some (avg (x # xs))"

fun sql_max :: "real list \<Rightarrow> real option" where
  "sql_max [] = None"
| "sql_max (x # xs) = Some (fold max xs x)"

definition samples_of :: "database \<Rightarrow> string \<Rightarrow> data_points_row list" where
  "samples_of db sid = filter (\<lambda>r. sessionId r = sid) (data_points db)"

definition getSession :: "database \<Rightarrow> string \<Rightarrow> Session option" where
  "getSession db sid = find (\<lambda>s. session_id s = sid) (sessions db)"

text \<open>
  \<open>endSession\<close>: the aggregates are selected over the rows stored for the session, then
  one \<open>UPDATE\<close> writes them with the end time into every row of \<open>sessions\<close> with that
  id, and the row is read back. There is no test of the previous \<open>endTime\<close>.
\<close>

definition endSession :: "database \<Rightarrow> int \<Rightarrow> string \<Rightarrow> database \<times> Session option" where
  "endSession db now sid =
     (let rows = samples_of db sid;
          db' = db\<lparr>sessions :=
                  map (\<lambda>s. if session_id s = sid
                            then s\<lparr>endTime := Some now,
                                   avgCpu := sql_avg (engine_avg db) (map cpu_col rows),
                                   maxCpu := sql_max (map cpu_col rows),
                                   avgMemory := sql_avg (engine_avg db) (map memory_col rows),
                                   maxMemory := sql_max (map memory_col rows)\<rparr>
                            else s)
                      (sessions db)\<rparr>
      in (db', getSession db' sid))"

text \<open>
  \<open>getSessionWithData\<close>: the session with its samples ordered by timestamp (rows of equal
  timestamp are kept in insertion order here; SQL leaves their order open).
\<close>

definition row_data_point :: "data_points_row \<Rightarrow> DataPoint" where
  "row_data_point r =
     \<lparr>timestamp = timestamp_col r, cpu = Num (cpu_col r), memory = Num (memory_col r),
      ppid = ppid_col r\<rparr>"

definition getSessionWithData :: "database \<Rightarrow> string \<Rightarrow> (Session \<times> DataPoint list) option" where
  "getSessionWithData db sid =
     (case getSession db sid of
        None \<Rightarrow> None
      | Some s \<Rightarrow> Some (s, map row_data_point (sort_key timestamp_col (samples_of db sid))))"

text \<open>
  \<open>deleteSession\<close>: first the samples of the session are deleted, then the session row;
  the result says whether the second statement changed a row.
\<close>

definition deleteSession :: "database \<Rightarrow> string \<Rightarrow> database \<times> bool" where
  "deleteSession db sid =
     (let db1 = db\<lparr>data_points := filter (\<lambda>r. sessionId r \<noteq> sid) (data_points db)\<rparr>;
          changes = length (filter (\<lambda>s. session_id s = sid) (sessions db1));
          db2 = db1\<lparr>sessions := filter (\<lambda>s. session_id s \<noteq> sid) (sessions db1)\<rparr>
      in (db2, changes > 0))"

definition updateSessionName :: "database \<Rightarrow> string \<Rightarrow> string \<Rightarrow> database \<times> Session option" where
  "updateSessionName db sid nm =
     (let db' = db\<lparr>sessions :=
                  map (\<lambda>s. if session_id s = sid then s\<lparr>name := nm\<rparr> else s) (sessions db)\<rparr>
      in (db', getSession db' sid))"

text \<open>
  Sequences of store operations. An operation that throws leaves the database as it was
  (each statement is atomic), and the caller goes on.
\<close>

datatype store_op =
    CreateSession string int string int string string
  | AddDataPoint string int js_number js_number "int option"
  | EndSession int string
  | UpdateSessionName string string
  | DeleteSession string

fun apply_op :: "database \<Rightarrow> store_op \<Rightarrow> database" where
  "apply_op db (CreateSession uuid now nm p pname cmd) =
     (case createSession db uuid now nm p pname cmd of Inl e \<Rightarrow> db | Inr r \<Rightarrow> fst r)"
| "apply_op db (AddDataPoint sid ts c m pp) =
     (case addDataPoint db sid ts c m pp of Inl e \<Rightarrow> db | Inr db' \<Rightarrow> db')"
| "apply_op db (EndSession now sid) = fst (endSession db now sid)"
| "apply_op db (UpdateSessionName sid nm) = fst (updateSessionName db sid nm)"
| "apply_op db (DeleteSession sid) = fst (deleteSession db sid)"

definition run_ops :: "database \<Rightarrow> store_op list \<Rightarrow> database" where
  "run_ops db ops = foldl apply_op db ops"

section \<open>The monitor (server/src/monitor.ts)\<close>

record ProcessInfo =
  info_pid :: int
  info_name :: string
  cmd :: string
  info_cpu :: "real option"
  info_memory :: "real option"

text \<open>The events of \<open>MonitorEvents\<close>; an \<open>Error\<close> is represented by its message.\<close>

datatype monitor_event = DataEv DataPoint | ErrorEv string | StoppedEv

text \<open>
  What \<open>await pidusage(pid)\<close> gives back: the statistics, a rejection with an
  \<open>Error\<close> of some message, or a rejection with a value that is not an \<open>Error\<close>.
\<close>

datatype sample_result = Stats js_number js_number "int option" | Failure string | Thrown

datatype start_error = ProcessNotFound int

text \<open>
  The fields of a \<open>ProcessMonitor\<close> object. A \<open>Timeout\<close> object is a handle (a
  number); \<open>null\<close> is \<open>None\<close>.
\<close>

record ProcessMonitor =
  mon_pid :: int
  interval :: nat
  timer :: "nat option"
  isRunning :: bool

text \<open>
  The two \<open>async\<close> methods suspend at an \<open>await\<close>. Besides the object, a monitor
  therefore has a footprint in the event loop: the calls of \<open>start\<close> suspended at
  \<open>await getProcessByPid\<close>, the calls of \<open>poll\<close> suspended at \<open>await pidusage\<close>,
  and the timeouts set by \<open>setTimeout\<close> that have neither fired nor been cleared.
  \<open>emitted\<close> records every call of \<open>emit\<close>, in order.
\<close>

record monitor_cfg = ProcessMonitor +
  starting :: nat
  polling :: nat
  timers :: "nat list"
  next_timer :: nat
  emitted :: "monitor_event list"

definition new_monitor :: "int \<Rightarrow> nat \<Rightarrow> monitor_cfg" where
  "new_monitor p i =
     \<lparr>mon_pid = p, interval = i, timer = None, isRunning = False,
      starting = 0, polling = 0, timers = [], next_timer = 0, emitted = []\<rparr>"

text \<open>
  The listeners registered with \<open>on\<close> act on the rest of the program, a state of type
  \<open>'w\<close>. \<open>emit\<close> calls them synchronously, so an exception of a listener is thrown
  at the call of \<open>emit\<close>: the \<open>data\<close> listener returns the message of the error it
  threw, if any, beside the state it left.
\<close>

record 'w listeners =
  on_data :: "DataPoint \<Rightarrow> 'w \<Rightarrow> string option \<times> 'w"
  on_error :: "string \<Rightarrow> 'w \<Rightarrow> 'w"
  on_stopped :: "'w \<Rightarrow> 'w"

text \<open>\<open>String.prototype.includes\<close>.\<close>

fun str_includes :: "string \<Rightarrow> string \<Rightarrow> bool" where
  "str_includes [] sub = (sub = [])"
| "str_includes (c # cs) sub = (prefix sub (c # cs) \<or> str_includes cs sub)"

text \<open>\<open>poll\<close> up to its \<open>await\<close>.\<close>

definition poll :: "monitor_cfg \<Rightarrow> monitor_cfg" where
  "poll m = (if \<not> isRunning m then m else m\<lparr>polling := Suc (polling m)\<rparr>)"

text \<open>
  \<open>start\<close> up to its \<open>await\<close>; the flag says whether the call is suspended there
  (otherwise it has returned \<open>null\<close>).
\<close>

definition start_call :: "monitor_cfg \<Rightarrow> monitor_cfg \<times> bool" where
  "start_call m = (if isRunning m then (m, False) else (m\<lparr>starting := Suc (starting m)\<rparr>, True))"

text \<open>\<open>start\<close> from its \<open>await\<close> on, given what \<open>getProcessByPid\<close> returned.\<close>

definition start_resume ::
  "ProcessInfo option \<Rightarrow> monitor_cfg \<Rightarrow> monitor_cfg \<times> (start_error + ProcessInfo)"
where
  "start_resume info m =
     (let m0 = m\<lparr>starting := starting m - 1\<rparr>
      in case info of
           None \<Rightarrow> (m0, Inl (ProcessNotFound (mon_pid m)))
         | Some i \<Rightarrow> (poll (m0\<lparr>isRunning := True\<rparr>), Inr i))"

definition stop :: "'w listeners \<Rightarrow> monitor_cfg \<Rightarrow> 'w \<Rightarrow> monitor_cfg \<times> 'w" where
  "stop L m w =
     (let m1 = (case timer m of
                  Some h \<Rightarrow> m\<lparr>timer := None, timers := removeAll h (timers m)\<rparr>
                | None \<Rightarrow> m);
          m2 = m1\<lparr>isRunning := False, emitted := emitted m1 @ [StoppedEv]\<rparr>
      in (m2, on_stopped L w))"

text \<open>The last statement of \<open>poll\<close>.\<close>

definition reschedule :: "monitor_cfg \<Rightarrow> monitor_cfg" where
  "reschedule m =
     (if isRunning m
      then m\<lparr>timer := Some (next_timer m), timers := timers m @ [next_timer m],
             next_timer := Suc (next_timer m)\<rparr>
      else m)"

text \<open>The \<open>catch\<close> block of \<open>poll\<close>, for an \<open>Error\<close> with the given message.\<close>

definition poll_catch :: "'w listeners \<Rightarrow> string \<Rightarrow> monitor_cfg \<Rightarrow> 'w \<Rightarrow> monitor_cfg \<times> 'w" where
  "poll_catch L msg m w =
     (if str_includes msg ''No matching pid found'' \<or> str_includes msg ''No such process''
      then (case stop L m w of
              (m1, w1) \<Rightarrow> (m1\<lparr>emitted := emitted m1 @ [ErrorEv ''Process terminated'']\<rparr>,
                           on_error L ''Process terminated'' w1))
      else (reschedule (m\<lparr>emitted := emitted m @ [ErrorEv msg]\<rparr>), on_error L msg w))"

text \<open>\<open>poll\<close> from its \<open>await\<close> on, given the outcome of \<open>pidusage\<close> and the time.\<close>

definition poll_resume ::
  "'w listeners \<Rightarrow> sample_result \<Rightarrow> int \<Rightarrow> monitor_cfg \<Rightarrow> 'w \<Rightarrow> monitor_cfg \<times> 'w"
where
  "poll_resume L res now m w =
     (let m0 = m\<lparr>polling := polling m - 1\<rparr>
      in case res of
           Stats c mem pp \<Rightarrow>
             (let dp = \<lparr>timestamp = now, cpu = c, memory = mem, ppid = pp\<rparr>;
                  m1 = m0\<lparr>emitted := emitted m0 @ [DataEv dp]\<rparr>
              in case on_data L dp w of
                   (None, w1) \<Rightarrow> (reschedule m1, w1)
                 | (Some msg, w1) \<Rightarrow> poll_catch L msg m1 w1)
         | Failure msg \<Rightarrow> poll_catch L msg m0 w
         | Thrown \<Rightarrow> (reschedule m0, w))"

text \<open>The callback of \<open>setTimeout\<close>, when the timeout with handle \<open>h\<close> fires.\<close>

definition timer_fire :: "nat \<Rightarrow> monitor_cfg \<Rightarrow> monitor_cfg" where
  "timer_fire h m = poll (m\<lparr>timers := removeAll h (timers m)\<rparr>)"

text \<open>
  What can happen to one monitor: a call of \<open>start\<close> or \<open>stop\<close>, and the event loop
  resuming a suspended \<open>start\<close>, resuming a suspended \<open>poll\<close>, or firing a pending
  timeout. The event loop can only resume what is suspended and fire what is pending.
\<close>

datatype monitor_step =
    CallStart
  | CallStop
  | StartResumes "ProcessInfo option"
  | PollResumes sample_result int
  | TimerFires nat

fun mstep :: "'w listeners \<Rightarrow> monitor_cfg \<times> 'w \<Rightarrow> monitor_step \<Rightarrow> monitor_cfg \<times> 'w" where
  "mstep L (m, w) CallStart = (fst (start_call m), w)"
| "mstep L (m, w) CallStop = stop L m w"
| "mstep L (m, w) (StartResumes info) =
     (if starting m = 0 then (m, w) else (fst (start_resume info m), w))"
| "mstep L (m, w) (PollResumes res now) =
     (if polling m = 0 then (m, w) else poll_resume L res now m w)"
| "mstep L (m, w) (TimerFires h) =
     (if h \<in> set (timers m) then (timer_fire h m, w) else (m, w))"

definition mrun :: "'w listeners \<Rightarrow> monitor_cfg \<times> 'w \<Rightarrow> monitor_step list \<Rightarrow> monitor_cfg \<times> 'w" where
  "mrun L c evs = foldl (mstep L) c evs"

section \<open>The registry (server/src/server.ts)\<close>

text \<open>
  The messages the server writes to WebSocket clients: \<open>ws.send\<close> to the client of the
  current command, or \<open>broadcast\<close> to every open client.
\<close>

datatype server_msg =
    ErrorMsg string "string option"
  | StartedMsg Session ProcessInfo
  | StoppedMsg "Session option"
  | DatapointMsg string DataPoint

datatype wire = Send nat server_msg | Broadcast server_msg

text \<open>An entry of \<open>activeMonitors\<close>; the monitor is a reference into the store of monitors.\<close>

record entry =
  monitor :: nat
  entry_sessionId :: string

text \<open>
  A monitor in the store, with the two constants its listeners close over (\<open>session\<close>
  and \<open>pid\<close> of the \<open>start\<close> case that created it).
\<close>

record monitor_cell =
  cfg :: monitor_cfg
  cap_session :: Session
  cap_pid :: int

text \<open>
  A \<open>start\<close> command suspended at one of its two \<open>await\<close>s: at
  \<open>await getProcessByPid(pid)\<close> with its client, \<open>pid\<close> and \<open>name\<close>; or at
  \<open>await monitor.start()\<close>, which itself waits for \<open>getProcessByPid\<close>, with its
  client, \<open>pid\<close>, \<open>session\<close>, \<open>processInfo\<close> and monitor.
\<close>

datatype task =
    AwaitLookup nat int "string option"
  | AwaitMonitorStart nat int Session ProcessInfo nat

text \<open>
  The keys of \<open>activeMonitors\<close> are \<open>String(pid)\<close>, which is injective on integers, so
  the map is keyed by the pid itself.
\<close>

record server_state =
  db :: database
  activeMonitors :: "int \<rightharpoonup> entry"
  monitors :: "nat \<rightharpoonup> monitor_cell"
  next_monitor :: nat
  tasks :: "nat \<rightharpoonup> task"
  next_task :: nat
  outbox :: "wire list"

definition init_server :: "bool \<Rightarrow> (real list \<Rightarrow> double) \<Rightarrow> server_state" where
  "init_server fk avg =
     \<lparr>db = initDatabase fk avg, activeMonitors = Map.empty, monitors = Map.empty, next_monitor = 0,
      tasks = Map.empty, next_task = 0, outbox = []\<rparr>"

definition sqlite_message :: "SqliteError \<Rightarrow> string" where
  "sqlite_message e =
     (case e of
        ConstraintPrimaryKey \<Rightarrow> ''UNIQUE constraint failed: sessions.id''
      | ConstraintForeignKey \<Rightarrow> ''FOREIGN KEY constraint failed''
      | ConstraintNotNull col \<Rightarrow> ''NOT NULL constraint failed: data_points.'' @ col)"

definition broadcast :: "server_msg \<Rightarrow> server_state \<Rightarrow> server_state" where
  "broadcast msg s = s\<lparr>outbox := outbox s @ [Broadcast msg]\<rparr>"

definition ws_send :: "nat \<Rightarrow> server_msg \<Rightarrow> server_state \<Rightarrow> server_state" where
  "ws_send ws msg s = s\<lparr>outbox := outbox s @ [Send ws msg]\<rparr>"

text \<open>The three listeners that the \<open>start\<close> case registers on its monitor.\<close>

definition server_listeners :: "Session \<Rightarrow> int \<Rightarrow> server_state listeners" where
  "server_listeners session p =
     \<lparr>on_data = (\<lambda>dp s.
         case addDataPoint (db s) (session_id session) (timestamp dp) (cpu dp) (memory dp) (ppid dp) of
           Inl e \<Rightarrow> (Some (sqlite_message e), s)
         | Inr db' \<Rightarrow> (None, broadcast (DatapointMsg (session_id session) dp) (s\<lparr>db := db'\<rparr>))),
      on_error = (\<lambda>msg. broadcast (ErrorMsg msg (Some (session_id session)))),
      on_stopped = (\<lambda>s. s\<lparr>activeMonitors := (activeMonitors s)(p := None)\<rparr>)\<rparr>"

definition cell_listeners :: "monitor_cell \<Rightarrow> server_state listeners" where
  "cell_listeners c = server_listeners (cap_session c) (cap_pid c)"

definition spawn :: "task \<Rightarrow> server_state \<Rightarrow> server_state" where
  "spawn t s = s\<lparr>tasks := (tasks s)(next_task s \<mapsto> t), next_task := Suc (next_task s)\<rparr>"

text \<open>The \<open>catch\<close> block of the message handler.\<close>

definition invalid_message :: "nat \<Rightarrow> server_state \<Rightarrow> server_state" where
  "invalid_message ws = ws_send ws (ErrorMsg ''Invalid message format'' None)"

text \<open>The \<open>start\<close> case up to its first \<open>await\<close>.\<close>

definition handle_start :: "nat \<Rightarrow> int \<Rightarrow> string option \<Rightarrow> server_state \<Rightarrow> server_state" where
  "handle_start ws p nm s =
     (if activeMonitors s p \<noteq> None
      then ws_send ws (ErrorMsg ''Monitor already running for this process'' None) s
      else spawn (AwaitLookup ws p nm) s)"

text \<open>The end of the \<open>start\<close> case, after \<open>await monitor.start()\<close>.\<close>

definition register :: "int \<Rightarrow> Session \<Rightarrow> ProcessInfo \<Rightarrow> nat \<Rightarrow> server_state \<Rightarrow> server_state" where
  "register p session info h s =
     broadcast (StartedMsg session info)
       (s\<lparr>activeMonitors :=
            (activeMonitors s)(p \<mapsto> \<lparr>monitor = h, entry_sessionId = session_id session\<rparr>)\<rparr>)"

text \<open>
  The \<open>start\<close> case from the first \<open>await\<close> to the second, given what
  \<open>getProcessByPid\<close> returned, the fresh uuid, the time, and the text of
  \<open>new Date().toLocaleString()\<close>.
\<close>

definition start_after_lookup ::
  "nat \<Rightarrow> int \<Rightarrow> string option \<Rightarrow> ProcessInfo option \<Rightarrow> string \<Rightarrow> int \<Rightarrow> string \<Rightarrow>
   server_state \<Rightarrow> server_state"
where
  "start_after_lookup ws p nm info uuid now loc s =
     (case info of
        None \<Rightarrow> ws_send ws (ErrorMsg ''Process not found'' None) s
      | Some i \<Rightarrow>
          (let dflt = info_name i @ '' - '' @ loc;
               sessionName = (case nm of None \<Rightarrow> dflt | Some n \<Rightarrow> if n = [] then dflt else n)
           in case createSession (db s) uuid now sessionName p (info_name i) (cmd i) of
                Inl e \<Rightarrow> invalid_message ws s
              | Inr (db', session) \<Rightarrow>
                  (let h = next_monitor s;
                       (m, suspended) = start_call (new_monitor p 500);
                       s1 = s\<lparr>db := db',
                              monitors := (monitors s)(h \<mapsto>
                                \<lparr>cfg = m, cap_session = session, cap_pid = p\<rparr>),
                              next_monitor := Suc h\<rparr>
                   in if suspended then spawn (AwaitMonitorStart ws p session i h) s1
                      else register p session i h s1)))"

text \<open>
  The rest of \<open>monitor.start()\<close> and of the \<open>start\<close> case, given what the monitor's
  \<open>getProcessByPid\<close> returned. An exception of \<open>monitor.start()\<close> goes to the
  \<open>catch\<close> block.
\<close>

definition start_after_monitor ::
  "nat \<Rightarrow> int \<Rightarrow> Session \<Rightarrow> ProcessInfo \<Rightarrow> nat \<Rightarrow> ProcessInfo option \<Rightarrow>
   server_state \<Rightarrow> server_state"
where
  "start_after_monitor ws p session i h info s =
     (case monitors s h of
        None \<Rightarrow> s
      | Some c \<Rightarrow>
          (case start_resume info (cfg c) of
             (m, r) \<Rightarrow>
               (let s1 = s\<lparr>monitors := (monitors s)(h \<mapsto> c\<lparr>cfg := m\<rparr>)\<rparr>
                in case r of
                     Inl e \<Rightarrow> invalid_message ws s1
                   | Inr _ \<Rightarrow> register p session i h s1)))"

text \<open>The \<open>stop\<close> case.\<close>

definition handle_stop :: "int \<Rightarrow> int \<Rightarrow> server_state \<Rightarrow> server_state" where
  "handle_stop p now s =
     (case activeMonitors s p of
        None \<Rightarrow> s
      | Some e \<Rightarrow>
          (case monitors s (monitor e) of
             None \<Rightarrow> s
           | Some c \<Rightarrow>
               (case stop (cell_listeners c) (cfg c) s of
                  (m, s1) \<Rightarrow>
                    (let s2 = s1\<lparr>monitors := (monitors s1)(monitor e \<mapsto> c\<lparr>cfg := m\<rparr>)\<rparr>;
                         (db', session) = endSession (db s2) now (entry_sessionId e);
                         s3 = s2\<lparr>db := db', activeMonitors := (activeMonitors s2)(p := None)\<rparr>
                     in broadcast (StoppedMsg session) s3))))"

text \<open>A suspended \<open>poll\<close> of monitor \<open>h\<close> is resumed.\<close>

definition poll_done :: "nat \<Rightarrow> sample_result \<Rightarrow> int \<Rightarrow> server_state \<Rightarrow> server_state" where
  "poll_done h res now s =
     (case monitors s h of
        None \<Rightarrow> s
      | Some c \<Rightarrow>
          if polling (cfg c) = 0 then s
          else (case poll_resume (cell_listeners c) res now (cfg c) s of
                  (m, s1) \<Rightarrow> s1\<lparr>monitors := (monitors s1)(h \<mapsto> c\<lparr>cfg := m\<rparr>)\<rparr>))"

text \<open>The pending timeout \<open>t\<close> of monitor \<open>h\<close> fires.\<close>

definition timer_fired :: "nat \<Rightarrow> nat \<Rightarrow> server_state \<Rightarrow> server_state" where
  "timer_fired h t s =
     (case monitors s h of
        None \<Rightarrow> s
      | Some c \<Rightarrow>
          if t \<in> set (timers (cfg c))
          then s\<lparr>monitors := (monitors s)(h \<mapsto> c\<lparr>cfg := timer_fire t (cfg c)\<rparr>)\<rparr>
          else s)"

text \<open>
  The two HTTP routes that write to the store: \<open>DELETE /api/sessions/:id\<close> and
  \<open>PATCH /api/sessions/:id\<close> (which answers 400 on an empty name).
\<close>

definition http_delete :: "string \<Rightarrow> server_state \<Rightarrow> server_state" where
  "http_delete sid s = s\<lparr>db := fst (deleteSession (db s) sid)\<rparr>"

definition http_patch :: "string \<Rightarrow> string \<Rightarrow> server_state \<Rightarrow> server_state" where
  "http_patch sid nm s = (if nm = [] then s else s\<lparr>db := fst (updateSessionName (db s) sid nm)\<rparr>)"

text \<open>
  The server runs one callback at a time. An event is a WebSocket message (with the
  client and the time), an HTTP request, the resumption of a suspended task with what it
  waited for, or the firing of a timeout. Resuming \<open>monitor.start()\<close> and then the
  \<open>start\<close> case that awaits it is one event: between the two only promise jobs run.
\<close>

datatype ws_command = Start int "string option" | Stop int

datatype event =
    Message nat ws_command int
  | HttpDelete string
  | HttpPatch string string
  | LookupDone nat "ProcessInfo option" string int string
  | MonitorStartDone nat "ProcessInfo option"
  | PollDone nat sample_result int
  | TimerFired nat nat

fun step :: "server_state \<Rightarrow> event \<Rightarrow> server_state" where
  "step s (Message ws (Start p nm) now) = handle_start ws p nm s"
| "step s (Message ws (Stop p) now) = handle_stop p now s"
| "step s (HttpDelete sid) = http_delete sid s"
| "step s (HttpPatch sid nm) = http_patch sid nm s"
| "step s (LookupDone k info uuid now loc) =
     (case tasks s k of
        Some (AwaitLookup ws p nm) \<Rightarrow>
          start_after_lookup ws p nm info uuid now loc (s\<lparr>tasks := (tasks s)(k := None)\<rparr>)
      | _ \<Rightarrow> s)"
| "step s (MonitorStartDone k info) =
     (case tasks s k of
        Some (AwaitMonitorStart ws p session i h) \<Rightarrow>
          start_after_monitor ws p session i h info (s\<lparr>tasks := (tasks s)(k := None)\<rparr>)
      | _ \<Rightarrow> s)"
| "step s (PollDone h res now) = poll_done h res now s"
| "step s (TimerFired h t) = timer_fired h t s"

definition run :: "server_state \<Rightarrow> event list \<Rightarrow> server_state" where
  "run s evs = foldl step s evs"

section \<open>Predicates used in the statements\<close>



text \<open>
  A store used as concrete input, on an engine with \<open>AVG\<close> any \<open>avg\<close>: one session with
  the three samples of cpu 10, 20, 30 and memory 100, 200, 300.
\<close>

definition db3 :: "(real list \<Rightarrow> double) \<Rightarrow> database" where
  "db3 avg = run_ops (initDatabase False avg)
     [CreateSession ''a'' 0 ''n'' 1234 ''p'' ''c'', AddDataPoint ''a'' 1 (Num 10) (Num 100) None,
      AddDataPoint ''a'' 2 (Num 20) (Num 200) None, AddDataPoint ''a'' 3 (Num 30) (Num 300) None]"

text \<open>
  Concrete inputs for the registry: a process, the session that a \<open>start\<close> command for
  it creates, and the three events of a successful \<open>start\<close> for pid 1234.
\<close>

definition pinfo :: ProcessInfo where
  "pinfo = \<lparr>info_pid = 1234, info_name = ''node'', cmd = ''node app.js'',
             info_cpu = None, info_memory = None\<rparr>"

definition session_u1 :: Session where
  "session_u1 = \<lparr>session_id = ''u1'', name = ''rec'', pid = 1234, processName = ''node'',
      command = ''node app.js'', startTime = 10, endTime = None, avgCpu = None, maxCpu = None,
      avgMemory = None, maxMemory = None\<rparr>"

definition started_1234 :: "event list" where
  "started_1234 =
     [Message 1 (Start 1234 (Some ''rec'')) 0,
      LookupDone 0 (Some pinfo) ''u1'' 10 ''11/3/2026'',
      MonitorStartDone 1 (Some pinfo)]"

text \<open>
  States of a monitor. \<open>one_chain\<close>: no \<open>start\<close> is suspended, and there is at most
  one suspended \<open>poll\<close> or else one pending timeout, whose handle is in \<open>timer\<close>.
  \<open>halted\<close>: not running, with no timeout and no suspended \<open>start\<close>.
\<close>

definition one_chain :: "monitor_cfg \<Rightarrow> bool" where
  "one_chain m \<longleftrightarrow>
     starting m = 0 \<and>
     (case timers m of
        [] \<Rightarrow> polling m \<le> 1
      | [h] \<Rightarrow> polling m = 0 \<and> timer m = Some h
      | _ \<Rightarrow> False)"

definition halted :: "monitor_cfg \<Rightarrow> bool" where
  "halted m \<longleftrightarrow> \<not> isRunning m \<and> timer m = None \<and> timers m = [] \<and> starting m = 0"

fun is_data :: "monitor_event \<Rightarrow> bool" where
  "is_data (DataEv dp) = True"
| "is_data e = False"

fun is_error :: "monitor_event \<Rightarrow> bool" where
  "is_error (ErrorEv msg) = True"
| "is_error e = False"

definition data_events :: "monitor_event list \<Rightarrow> nat" where
  "data_events evs = length (filter is_data evs)"

definition error_events :: "monitor_event list \<Rightarrow> nat" where
  "error_events evs = length (filter is_error evs)"

text \<open>Listeners whose \<open>data\<close> listener always returns normally, and ones where it throws.\<close>

definition never_throws :: "'w listeners \<Rightarrow> bool" where
  "never_throws L \<longleftrightarrow> (\<forall>dp w. fst (on_data L dp w) = None)"

definition quiet_listeners :: "unit listeners" where
  "quiet_listeners =
     \<lparr>on_data = (\<lambda>dp w. (None, w)), on_error = (\<lambda>msg w. w), on_stopped = (\<lambda>w. w)\<rparr>"

definition throwing_listeners :: "unit listeners" where
  "throwing_listeners =
     \<lparr>on_data = (\<lambda>dp w. (Some ''FOREIGN KEY constraint failed'', w)),
      on_error = (\<lambda>msg w. w), on_stopped = (\<lambda>w. w)\<rparr>"

text \<open>
  \<open>straggler_step quiet m m'\<close> relates a halted monitor to a later state of it: it is
  still halted, it has emitted its earlier events and then some more, and the \<open>data\<close>
  events among these, like the \<open>error\<close> events, are at most as many as polls have
  completed; if \<open>quiet\<close>, so are the two kinds together.
\<close>

definition straggler_step :: "bool \<Rightarrow> monitor_cfg \<Rightarrow> monitor_cfg \<Rightarrow> bool" where
  "straggler_step quiet m m' \<longleftrightarrow>
     halted m' \<and>
     (\<exists>new. emitted m' = emitted m @ new \<and>
        data_events new + polling m' \<le> polling m \<and>
        error_events new + polling m' \<le> polling m \<and>
        (quiet \<longrightarrow> data_events new + error_events new + polling m' \<le> polling m))"

text \<open>
  States of the registry. A monitor is \<open>fresh\<close> between its construction and the
  resumption of its \<open>start\<close>. \<open>frame s s'\<close>: from \<open>s\<close> to \<open>s'\<close> the monitors and the
  suspended tasks are the same, no active entry was added, and the foreign-key setting is
  the same. \<open>registry_inv\<close>: every monitor is fresh or has one chain; a suspended
  \<open>await monitor.start()\<close> belongs to a fresh monitor, and to each monitor at most one;
  the monitor of every active entry has one chain.
\<close>

definition fresh :: "monitor_cfg \<Rightarrow> bool" where
  "fresh m \<longleftrightarrow> starting m = 1 \<and> polling m = 0 \<and> timers m = [] \<and> \<not> isRunning m"

definition frame :: "server_state \<Rightarrow> server_state \<Rightarrow> bool" where
  "frame s s' \<longleftrightarrow>
     monitors s' = monitors s \<and> tasks s' = tasks s \<and> next_monitor s' = next_monitor s \<and>
     (\<forall>p e. activeMonitors s' p = Some e \<longrightarrow> activeMonitors s p = Some e) \<and>
     foreign_keys (db s') = foreign_keys (db s)"

definition registry_inv :: "server_state \<Rightarrow> bool" where
  "registry_inv s \<longleftrightarrow>
     (\<forall>h c. monitors s h = Some c \<longrightarrow>
        h < next_monitor s \<and> (one_chain (cfg c) \<or> fresh (cfg c))) \<and>
     (\<forall>k ws p se i h. tasks s k = Some (AwaitMonitorStart ws p se i h) \<longrightarrow>
        (\<exists>c. monitors s h = Some c \<and> fresh (cfg c)) \<and>
        (\<forall>k' ws' p' se' i'. tasks s k' = Some (AwaitMonitorStart ws' p' se' i' h) \<longrightarrow> k' = k)) \<and>
     (\<forall>p e. activeMonitors s p = Some e \<longrightarrow>
        (\<exists>c. monitors s (monitor e) = Some c \<and> one_chain (cfg c)))"

section \<open>Properties of the session store\<close>

lemmas store_eval = run_ops_def initDatabase_def createSession_def session_ids_def endSession_def
  addDataPoint_def samples_of_def getSession_def deleteSession_def updateSessionName_def Let_def




lemma sql_avg_None [simp]: "sql_avg f xs = None \<longleftrightarrow> xs = []"
  by (cases xs) simp_all

lemma sql_max_None [simp]: "sql_max xs = None \<longleftrightarrow> xs = []"
  by (cases xs) simp_all

lemma getSession_None_iff: "getSession d sid = None \<longleftrightarrow> sid \<notin> session_ids d"
  by (auto simp: getSession_def session_ids_def find_None_iff)


lemma getSession_SomeD:
  "getSession d sid = Some s \<Longrightarrow> s \<in> set (sessions d) \<and> session_id s = sid"
  by (auto simp: getSession_def find_Some_iff)




subsection \<open>End time and aggregates of reachable sessions\<close>












lemma samples_of_endSession: "samples_of (fst (endSession d now sid)) sid' = samples_of d sid'"
  by (simp add: endSession_def samples_of_def Let_def)

lemma engine_avg_endSession: "engine_avg (fst (endSession d now sid)) = engine_avg d"
  by (simp add: endSession_def Let_def)

lemma find_map_same:
  "(\<And>x. P (f x) = P x) \<Longrightarrow> find P (map f xs) = map_option f (find P xs)"
  by (induction xs) simp_all

text \<open>
  What \<open>endSession\<close> returns for a stored session: the row that \<open>getSession\<close> found
  before, with the end time and the four aggregates replaced.
\<close>

lemma endSession_row:
  assumes "getSession d sid = Some s0"
  shows "snd (endSession d now sid) =
       Some (s0\<lparr>endTime := Some now,
                avgCpu := sql_avg (engine_avg d) (map cpu_col (samples_of d sid)),
                maxCpu := sql_max (map cpu_col (samples_of d sid)),
                avgMemory := sql_avg (engine_avg d) (map memory_col (samples_of d sid)),
                maxMemory := sql_max (map memory_col (samples_of d sid))\<rparr>)"
    and "getSession (fst (endSession d now sid)) sid = snd (endSession d now sid)"
proof -
  let ?f = "\<lambda>s. if session_id s = sid
      then s\<lparr>endTime := Some now,
             avgCpu := sql_avg (engine_avg d) (map cpu_col (samples_of d sid)),
             maxCpu := sql_max (map cpu_col (samples_of d sid)),
             avgMemory := sql_avg (engine_avg d) (map memory_col (samples_of d sid)),
             maxMemory := sql_max (map memory_col (samples_of d sid))\<rparr>
      else s"
  have "find (\<lambda>s. session_id s = sid) (map ?f (sessions d)) =
      map_option ?f (find (\<lambda>s. session_id s = sid) (sessions d))"
    by (rule find_map_same) simp
  moreover from assms have "session_id s0 = sid"
    using getSession_SomeD by blast
  ultimately show "snd (endSession d now sid) =
       Some (s0\<lparr>endTime := Some now,
                avgCpu := sql_avg (engine_avg d) (map cpu_col (samples_of d sid)),
                maxCpu := sql_max (map cpu_col (samples_of d sid)),
                avgMemory := sql_avg (engine_avg d) (map memory_col (samples_of d sid)),
                maxMemory := sql_max (map memory_col (samples_of d sid))\<rparr>)"
    using assms by (simp add: endSession_def getSession_def Let_def)
  show "getSession (fst (endSession d now sid)) sid = snd (endSession d now sid)"
    by (simp add: endSession_def Let_def)
qed

lemma endSession_endSession:
  "endSession (fst (endSession d t1 sid)) t2 sid = endSession d t2 sid"
proof -
  have "fst (endSession (fst (endSession d t1 sid)) t2 sid) = fst (endSession d t2 sid)"
    by (simp add: endSession_def samples_of_def Let_def comp_def)
  then show ?thesis
    by (simp add: endSession_def Let_def prod_eq_iff)
qed

subsection \<open>Aggregates at finalization\<close>




subsection \<open>Deleting a session\<close>

text \<open>
  Claim C7: \<open>deleteSession\<close> returns whether a session row with the id existed;
  afterwards there is no session row with the id and no sample row of it, so neither
  query finds anything.
\<close>

theorem deleteSession_cascade:
  "snd (deleteSession d sid) = (sid \<in> session_ids d) \<and>
   sid \<notin> session_ids (fst (deleteSession d sid)) \<and>
   samples_of (fst (deleteSession d sid)) sid = [] \<and>
   getSession (fst (deleteSession d sid)) sid = None \<and>
   getSessionWithData (fst (deleteSession d sid)) sid = None"
proof -
  have 1: "snd (deleteSession d sid) = (sid \<in> session_ids d)"
    by (auto simp: deleteSession_def session_ids_def Let_def filter_empty_conv)
  have 2: "sid \<notin> session_ids (fst (deleteSession d sid))"
    by (auto simp: deleteSession_def session_ids_def Let_def)
  have 3: "samples_of (fst (deleteSession d sid)) sid = []"
    by (auto simp: deleteSession_def samples_of_def Let_def filter_empty_conv)
  from 2 have 4: "getSession (fst (deleteSession d sid)) sid = None"
    by (simp add: getSession_None_iff)
  from 1 2 3 4 show ?thesis by (simp add: getSessionWithData_def)
qed

theorem deleteSession_cascade_witness:
  "\<forall>avg. snd (deleteSession (db3 avg) ''a'') \<and> \<not> snd (deleteSession (db3 avg) ''zz'') \<and>
     sessions (fst (deleteSession (db3 avg) ''a'')) = [] \<and>
     data_points (fst (deleteSession (db3 avg) ''a'')) = []"
proof
  fix avg :: "real list \<Rightarrow> double"
  have "''a'' \<in> session_ids (db3 avg)" "''zz'' \<notin> session_ids (db3 avg)"
    by (simp_all add: db3_def store_eval)
  moreover have "sessions (fst (deleteSession (db3 avg) ''a'')) = []"
    "data_points (fst (deleteSession (db3 avg) ''a'')) = []"
    by (simp_all add: db3_def store_eval)
  ultimately show "snd (deleteSession (db3 avg) ''a'') \<and> \<not> snd (deleteSession (db3 avg) ''zz'') \<and>
     sessions (fst (deleteSession (db3 avg) ''a'')) = [] \<and>
     data_points (fst (deleteSession (db3 avg) ''a'')) = []"
    using deleteSession_cascade [of "db3 avg" "''a''"] deleteSession_cascade [of "db3 avg" "''zz''"]
    by simp
qed


subsection \<open>Finalizing twice\<close>

text \<open>
  Claim C4, as stated, fails: a second \<open>endSession\<close> replaces the end time 5 by 9, and
  after one more sample it replaces the maximal cpu 30 by 100 and computes the average of
  four values in place of the average of three.
\<close>

theorem endSession_twice_counterexample:
  "\<forall>avg.
     map endTime (sessions (run_ops (db3 avg) [EndSession 5 ''a''])) = [Some 5] \<and>
     map endTime (sessions (run_ops (db3 avg) [EndSession 5 ''a'', EndSession 9 ''a''])) = [Some 9] \<and>
     map maxCpu (sessions (run_ops (db3 avg) [EndSession 5 ''a''])) = [Some 30] \<and>
     map maxCpu (sessions (run_ops (db3 avg)
        [EndSession 5 ''a'', AddDataPoint ''a'' 6 (Num 100) (Num 1000) None, EndSession 9 ''a'']))
       = [Some 100] \<and>
     map avgCpu (sessions (run_ops (db3 avg) [EndSession 5 ''a''])) = [Some (avg [10, 20, 30])] \<and>
     map avgCpu (sessions (run_ops (db3 avg)
        [EndSession 5 ''a'', AddDataPoint ''a'' 6 (Num 100) (Num 1000) None, EndSession 9 ''a'']))
       = [Some (avg [10, 20, 30, 100])]"
  by (simp add: db3_def store_eval)

text \<open>
  Claim C4, amended: \<open>endSession\<close> does not test whether the session is already
  finalized. On every call for a stored session, whatever end time and aggregates its row
  has, the end time is overwritten with the time of the call and the four aggregates with
  \<open>AVG\<close> and \<open>MAX\<close> over the samples stored for the session at that moment; the other
  fields of the row and the samples stay, and the row is returned as it is then stored. So a
  second call directly after a first leaves the store, and returns the row, exactly as a
  single call at the time of the second would.
\<close>

theorem endSession_overwrites:
  assumes "getSession d sid = Some s0"
  shows "snd (endSession d now sid) =
           Some (s0\<lparr>endTime := Some now,
                    avgCpu := sql_avg (engine_avg d) (map cpu_col (samples_of d sid)),
                    maxCpu := sql_max (map cpu_col (samples_of d sid)),
                    avgMemory := sql_avg (engine_avg d) (map memory_col (samples_of d sid)),
                    maxMemory := sql_max (map memory_col (samples_of d sid))\<rparr>) \<and>
         getSession (fst (endSession d now sid)) sid = snd (endSession d now sid) \<and>
         data_points (fst (endSession d now sid)) = data_points d \<and>
         endSession (fst (endSession d t1 sid)) now sid = endSession d now sid"
proof -
  have "data_points (fst (endSession d now sid)) = data_points d"
    by (simp add: endSession_def Let_def)
  with endSession_row [OF assms, of now] endSession_endSession [of d t1 sid now]
  show ?thesis by simp
qed

theorem endSession_overwrites_witness:
  "\<forall>avg.
     (let d = run_ops (db3 avg) [EndSession 5 ''a'', AddDataPoint ''a'' 6 (Num 100) (Num 1000) None];
          s0 = \<lparr>session_id = ''a'', name = ''n'', pid = 1234, processName = ''p'', command = ''c'',
                startTime = 0, endTime = Some 5, avgCpu = Some (avg [10, 20, 30]),
                maxCpu = Some 30, avgMemory = Some (avg [100, 200, 300]), maxMemory = Some 300\<rparr>
      in getSession d ''a'' = Some s0 \<and>
         snd (endSession d 9 ''a'') =
           Some (s0\<lparr>endTime := Some 9, avgCpu := Some (avg [10, 20, 30, 100]),
                    maxCpu := Some 100, avgMemory := Some (avg [100, 200, 300, 1000]),
                    maxMemory := Some 1000\<rparr>))"
proof
  fix avg :: "real list \<Rightarrow> double"
  let ?d = "run_ops (db3 avg) [EndSession 5 ''a'', AddDataPoint ''a'' 6 (Num 100) (Num 1000) None]"
  let ?s0 = "\<lparr>session_id = ''a'', name = ''n'', pid = 1234, processName = ''p'', command = ''c'',
                startTime = 0, endTime = Some 5, avgCpu = Some (avg [10, 20, 30]),
                maxCpu = Some 30, avgMemory = Some (avg [100, 200, 300]), maxMemory = Some 300\<rparr>"
  have g: "getSession ?d ''a'' = Some ?s0"
    by (simp add: db3_def store_eval)
  have smp: "map cpu_col (samples_of ?d ''a'') = [10, 20, 30, 100]"
    "map memory_col (samples_of ?d ''a'') = [100, 200, 300, 1000]"
    "engine_avg ?d = avg"
    by (simp_all add: db3_def store_eval)
  from endSession_overwrites [OF g, of 9] smp g
  show "let d = ?d; s0 = ?s0
      in getSession d ''a'' = Some s0 \<and>
         snd (endSession d 9 ''a'') =
           Some (s0\<lparr>endTime := Some 9, avgCpu := Some (avg [10, 20, 30, 100]),
                    maxCpu := Some 100, avgMemory := Some (avg [100, 200, 300, 1000]),
                    maxMemory := Some 1000\<rparr>)"
    by (simp add: Let_def)
qed

subsection \<open>Appending to a finalized session\<close>




subsection \<open>Appending for a session that does not exist\<close>









section \<open>Properties of the monitor and the registry\<close>

lemmas server_eval = run_def init_server_def handle_start_def handle_stop_def
  start_after_lookup_def start_after_monitor_def poll_done_def timer_fired_def http_delete_def
  http_patch_def register_def spawn_def invalid_message_def ws_send_def broadcast_def
  cell_listeners_def server_listeners_def sqlite_message_def
  new_monitor_def start_call_def start_resume_def stop_def poll_def reschedule_def
  poll_catch_def poll_resume_def timer_fire_def

lemma str_includes_sublist: "str_includes s sub \<longleftrightarrow> sublist sub s"
  by (induction s) (auto simp: sublist_Cons_right)

subsection \<open>A start command for a process that does not exist\<close>

text \<open>
  Claim C8: when the process lookup of a \<open>start\<close> command returns not-found, the command
  answers its client with the error \<open>Process not found\<close> and changes neither the store
  (no session row is created), nor the monitors (none is constructed), nor
  \<open>activeMonitors\<close>. And \<open>start()\<close> of a monitor that is not running, when its lookup
  returns not-found, throws the not-found error and leaves the monitor as it was: not
  running, no poll in flight, no timeout.
\<close>

theorem start_process_not_found:
  "(tasks s k = Some (AwaitLookup ws p nm) \<longrightarrow>
      (let s' = step s (LookupDone k None uuid now loc)
       in db s' = db s \<and> monitors s' = monitors s \<and> next_monitor s' = next_monitor s \<and>
          activeMonitors s' = activeMonitors s \<and>
          outbox s' = outbox s @ [Send ws (ErrorMsg ''Process not found'' None)])) \<and>
   (\<not> isRunning m \<longrightarrow>
      (case start_call m of
         (m1, suspended) \<Rightarrow>
           suspended \<and> start_resume None m1 = (m, Inl (ProcessNotFound (mon_pid m)))))"
  by (simp add: start_after_lookup_def ws_send_def start_call_def start_resume_def)

theorem start_process_not_found_witness:
  "\<forall>avg.
     (let s = step (init_server True avg) (Message 7 (Start 9999 None) 0);
          s' = step s (LookupDone 0 None ''u1'' 10 ''11/3/2026'')
      in tasks s 0 = Some (AwaitLookup 7 9999 None) \<and>
         sessions (db s') = [] \<and> monitors s' = Map.empty \<and> activeMonitors s' = Map.empty \<and>
         outbox s' = [Send 7 (ErrorMsg ''Process not found'' None)] \<and>
         \<not> isRunning (new_monitor 9999 500) \<and>
         start_resume None (fst (start_call (new_monitor 9999 500))) =
           (new_monitor 9999 500, Inl (ProcessNotFound 9999)))"
proof
  fix avg :: "real list \<Rightarrow> double"
  have t: "tasks (step (init_server True avg) (Message 7 (Start 9999 None) 0)) 0 =
      Some (AwaitLookup 7 9999 None)"
    by (simp add: server_eval store_eval)
  have r: "\<not> isRunning (new_monitor 9999 500)" "mon_pid (new_monitor 9999 500) = 9999"
    by (simp_all add: new_monitor_def)
  from start_process_not_found [of "step (init_server True avg) (Message 7 (Start 9999 None) 0)"
      0 7 9999 None "''u1''" 10 "''11/3/2026''" "new_monitor 9999 500"] t r
  show "let s = step (init_server True avg) (Message 7 (Start 9999 None) 0);
          s' = step s (LookupDone 0 None ''u1'' 10 ''11/3/2026'')
      in tasks s 0 = Some (AwaitLookup 7 9999 None) \<and>
         sessions (db s') = [] \<and> monitors s' = Map.empty \<and> activeMonitors s' = Map.empty \<and>
         outbox s' = [Send 7 (ErrorMsg ''Process not found'' None)] \<and>
         \<not> isRunning (new_monitor 9999 500) \<and>
         start_resume None (fst (start_call (new_monitor 9999 500))) =
           (new_monitor 9999 500, Inl (ProcessNotFound 9999))"
    by (simp add: Let_def split: prod.splits) (simp add: server_eval store_eval)
qed

text \<open>
  The second lookup, made by \<open>monitor.start()\<close> after the session was created, is another
  matter: if the process has gone by then, the command fails through the \<open>catch\<close> block and
  the session row stays.
\<close>

lemma second_lookup_not_found_keeps_session:
  "let s = run (init_server fk avg)
        [Message 1 (Start 1234 (Some ''rec'')) 0,
         LookupDone 0 (Some pinfo) ''u1'' 10 ''11/3/2026'',
         MonitorStartDone 1 None]
   in sessions (db s) = [session_u1] \<and> activeMonitors s 1234 = None \<and>
      outbox s = [Send 1 (ErrorMsg ''Invalid message format'' None)]"
  by (simp add: session_u1_def pinfo_def server_eval store_eval)

subsection \<open>The process terminates while it is monitored\<close>

text \<open>
  Claim C1 at its failing input: pid 1234 is started, one sample is recorded, and the next
  poll fails with \<open>No such process\<close>. The monitor stops and its \<open>stopped\<close> listener
  removes the active entry, but the session is not finalized (its row is unchanged, the end
  time and the aggregates are null) and no \<open>stopped\<close> message is broadcast: the only
  message is the error \<open>Process terminated\<close>.
\<close>

theorem termination_not_finalized:
  "let s = run (init_server fk avg)
        (started_1234 @
         [PollDone 0 (Stats (Num 10) (Num 100) None) 20, TimerFired 0 0,
          PollDone 0 (Failure ''No such process'') 30])
   in sessions (db s) = [session_u1] \<and>
      activeMonitors s 1234 = None \<and>
      outbox s =
        [Broadcast (StartedMsg session_u1 pinfo),
         Broadcast (DatapointMsg ''u1'' \<lparr>timestamp = 20, cpu = Num 10, memory = Num 100, ppid = None\<rparr>),
         Broadcast (ErrorMsg ''Process terminated'' (Some ''u1''))]"
  by (simp add: started_1234_def session_u1_def pinfo_def server_eval store_eval)

text \<open>The sibling path, the \<open>stop\<close> command, does finalize and broadcast the session.\<close>

lemma stop_command_finalizes:
  "let s = run (init_server fk avg)
        (started_1234 @ [PollDone 0 (Stats (Num 10) (Num 100) None) 20, Message 1 (Stop 1234) 30])
   in sessions (db s) =
        [session_u1\<lparr>endTime := Some 30, avgCpu := Some (avg [10]), maxCpu := Some 10,
                    avgMemory := Some (avg [100]), maxMemory := Some 100\<rparr>] \<and>
      activeMonitors s 1234 = None \<and>
      last (outbox s) =
        Broadcast (StoppedMsg (Some (session_u1\<lparr>endTime := Some 30,
          avgCpu := Some (avg [10]), maxCpu := Some 10, avgMemory := Some (avg [100]),
          maxMemory := Some 100\<rparr>)))"
  by (simp add: started_1234_def session_u1_def pinfo_def server_eval store_eval)

text \<open>
  In general: no completion of a poll changes a session row, and a poll that fails with one
  of the two not-found messages leaves the whole store as it is, removes the active entry
  and broadcasts the error \<open>Process terminated\<close>, nothing else.
\<close>

lemma sessions_poll_resume:
  "sessions (db (snd (poll_resume (cell_listeners c) res now m s))) = sessions (db s)"
  by (auto simp: poll_resume_def poll_catch_def stop_def Let_def cell_listeners_def
      server_listeners_def broadcast_def addDataPoint_def
      split: sample_result.splits sum.splits prod.splits option.splits if_splits js_number.splits)

lemma sessions_poll_done: "sessions (db (poll_done h res now s)) = sessions (db s)"
proof (cases "monitors s h")
  case None
  then show ?thesis by (simp add: poll_done_def)
next
  case (Some c)
  obtain m s1 where pr: "poll_resume (cell_listeners c) res now (cfg c) s = (m, s1)"
    by (cases "poll_resume (cell_listeners c) res now (cfg c) s")
  with sessions_poll_resume [of c res now "cfg c" s] have "sessions (db s1) = sessions (db s)"
    by simp
  with Some pr show ?thesis by (simp add: poll_done_def)
qed

lemma poll_termination:
  assumes "monitors s h = Some c" "polling (cfg c) \<noteq> 0"
    and "str_includes msg ''No matching pid found'' \<or> str_includes msg ''No such process''"
  shows "db (poll_done h (Failure msg) now s) = db s \<and>
         activeMonitors (poll_done h (Failure msg) now s) = (activeMonitors s)(cap_pid c := None) \<and>
         outbox (poll_done h (Failure msg) now s) =
           outbox s @ [Broadcast (ErrorMsg ''Process terminated'' (Some (session_id (cap_session c))))]"
  using assms
  by (auto simp: poll_done_def poll_resume_def poll_catch_def stop_def Let_def cell_listeners_def
      server_listeners_def broadcast_def split: option.splits)

subsection \<open>Two start commands for one pid\<close>

text \<open>
  Claim C6 at its failing input: a second \<open>start\<close> for pid 1234 arrives while the first
  is suspended at its process lookup. Both pass the test of \<open>activeMonitors\<close>, both
  create a session and a running monitor and broadcast \<open>started\<close>; neither is answered
  with an error, and the entry of the first is overwritten by the second.
\<close>

theorem concurrent_starts_both_succeed:
  "let s = run (init_server fk avg)
        [Message 1 (Start 1234 (Some ''rec'')) 0,
         Message 2 (Start 1234 (Some ''rec'')) 1,
         LookupDone 0 (Some pinfo) ''u1'' 10 ''11/3/2026'',
         LookupDone 1 (Some pinfo) ''u2'' 11 ''11/3/2026'',
         MonitorStartDone 2 (Some pinfo),
         MonitorStartDone 3 (Some pinfo)]
   in map session_id (sessions (db s)) = [''u1'', ''u2''] \<and>
      map_option (isRunning \<circ> cfg) (monitors s 0) = Some True \<and>
      map_option (isRunning \<circ> cfg) (monitors s 1) = Some True \<and>
      map_option (polling \<circ> cfg) (monitors s 0) = Some 1 \<and>
      map_option (polling \<circ> cfg) (monitors s 1) = Some 1 \<and>
      activeMonitors s 1234 = Some \<lparr>monitor = 1, entry_sessionId = ''u2''\<rparr> \<and>
      outbox s =
        [Broadcast (StartedMsg session_u1 pinfo),
         Broadcast (StartedMsg (session_u1\<lparr>session_id := ''u2'', startTime := 11\<rparr>) pinfo)]"
  by (simp add: session_u1_def pinfo_def server_eval store_eval)

text \<open>Started one after the other, the second command is refused.\<close>

lemma sequential_starts_second_refused:
  "let s = run (init_server fk avg) (started_1234 @ [Message 2 (Start 1234 (Some ''rec'')) 20])
   in map session_id (sessions (db s)) = [''u1''] \<and>
      last (outbox s) = Send 2 (ErrorMsg ''Monitor already running for this process'' None)"
  by (simp add: started_1234_def session_u1_def pinfo_def server_eval store_eval)

subsection \<open>After stop\<close>

lemma halted_stop:
  assumes "one_chain m" "stop L m w = (m1, w1)"
  shows "halted m1 \<and> polling m1 = polling m \<and> polling m \<le> 1 \<and> emitted m1 = emitted m @ [StoppedEv]"
  using assms
  by (auto simp: one_chain_def stop_def halted_def Let_def split: list.splits option.splits)

lemma straggler_step_refl: "halted m \<Longrightarrow> straggler_step q m m"
  by (simp add: straggler_step_def data_events_def error_events_def)

lemma straggler_step_trans:
  assumes "straggler_step q m m1" "straggler_step q m1 m2"
  shows "straggler_step q m m2"
proof -
  from assms(1) obtain new1 where
    e1: "emitted m1 = emitted m @ new1"
    and d1: "data_events new1 + polling m1 \<le> polling m"
    and r1: "error_events new1 + polling m1 \<le> polling m"
    and b1: "q \<longrightarrow> data_events new1 + error_events new1 + polling m1 \<le> polling m"
    unfolding straggler_step_def by blast
  from assms(2) obtain new2 where
    h2: "halted m2" and e2: "emitted m2 = emitted m1 @ new2"
    and d2: "data_events new2 + polling m2 \<le> polling m1"
    and r2: "error_events new2 + polling m2 \<le> polling m1"
    and b2: "q \<longrightarrow> data_events new2 + error_events new2 + polling m2 \<le> polling m1"
    unfolding straggler_step_def by blast
  have "emitted m2 = emitted m @ (new1 @ new2)" using e1 e2 by simp
  moreover have "data_events (new1 @ new2) + polling m2 \<le> polling m"
    using d1 d2 by (simp add: data_events_def)
  moreover have "error_events (new1 @ new2) + polling m2 \<le> polling m"
    using r1 r2 by (simp add: error_events_def)
  moreover have "q \<longrightarrow> data_events (new1 @ new2) + error_events (new1 @ new2) + polling m2 \<le> polling m"
    using b1 b2 by (auto simp: data_events_def error_events_def)
  ultimately show ?thesis using h2 unfolding straggler_step_def by blast
qed

lemma straggler_step_weaken: "straggler_step q m m' \<Longrightarrow> (q' \<longrightarrow> q) \<Longrightarrow> straggler_step q' m m'"
  unfolding straggler_step_def by blast

lemma straggler_stop:
  assumes "halted m"
  shows "straggler_step q m (fst (stop L m w))"
  using assms
  by (auto simp: straggler_step_def stop_def halted_def Let_def data_events_def error_events_def)

lemma straggler_poll_resume:
  assumes h: "halted m" and p: "polling m \<noteq> 0"
  shows "straggler_step (\<forall>dp. fst (on_data L dp w) = None) m (fst (poll_resume L res now m w))"
proof (cases res)
  case (Stats c mem pp)
  let ?dp = "\<lparr>timestamp = now, cpu = c, memory = mem, ppid = pp\<rparr>"
  obtain r w1 where od: "on_data L ?dp w = (r, w1)" by (cases "on_data L ?dp w")
  show ?thesis
  proof (cases r)
    case None
    with od Stats h p show ?thesis
      by (auto simp: straggler_step_def poll_resume_def reschedule_def halted_def Let_def
          data_events_def error_events_def)
  next
    case (Some msg)
    with od have "\<not> (\<forall>dp. fst (on_data L dp w) = None)"
      by (metis fst_conv option.distinct(1))
    with Some od Stats h p show ?thesis
      by (auto simp: straggler_step_def poll_resume_def poll_catch_def stop_def reschedule_def
          halted_def Let_def data_events_def error_events_def split: if_splits)
  qed
next
  case (Failure msg)
  with h p show ?thesis
    by (auto simp: straggler_step_def poll_resume_def poll_catch_def stop_def reschedule_def
        halted_def Let_def data_events_def error_events_def split: prod.splits if_splits)
next
  case Thrown
  with h p show ?thesis
    by (auto simp: straggler_step_def poll_resume_def reschedule_def halted_def Let_def
        data_events_def error_events_def)
qed

lemma halted_mstep:
  assumes "halted m" "ev \<noteq> CallStart"
  shows "straggler_step (\<forall>dp. fst (on_data L dp w) = None) m (fst (mstep L (m, w) ev))"
proof (cases ev)
  case CallStart
  with assms show ?thesis by simp
next
  case CallStop
  with assms straggler_stop show ?thesis by simp
next
  case (StartResumes info)
  with assms show ?thesis by (simp add: halted_def straggler_step_refl)
next
  case (PollResumes res now)
  with assms show ?thesis by (simp add: straggler_step_refl straggler_poll_resume)
next
  case (TimerFires h)
  with assms show ?thesis by (simp add: halted_def straggler_step_refl)
qed

lemma halted_mrun:
  assumes "halted m" "CallStart \<notin> set evs"
  shows "straggler_step (never_throws L) m (fst (mrun L (m, w) evs))"
  using assms
proof (induction evs arbitrary: m w)
  case Nil
  then show ?case by (simp add: mrun_def straggler_step_refl)
next
  case (Cons ev evs)
  obtain m1 w1 where st: "mstep L (m, w) ev = (m1, w1)" by (cases "mstep L (m, w) ev")
  from Cons.prems have ev: "ev \<noteq> CallStart" and evs: "CallStart \<notin> set evs" by auto
  from halted_mstep [OF Cons.prems(1) ev, of L w] st
  have "straggler_step (\<forall>dp. fst (on_data L dp w) = None) m m1" by simp
  then have s1: "straggler_step (never_throws L) m m1"
    by (rule straggler_step_weaken) (simp add: never_throws_def)
  then have h1: "halted m1" by (simp add: straggler_step_def)
  from Cons.IH [OF h1 evs, of w1] st
  have "straggler_step (never_throws L) m1 (fst (mrun L (m, w) (ev # evs)))"
    by (simp add: mrun_def)
  with s1 show ?case by (rule straggler_step_trans)
qed

text \<open>
  Claim C9, as stated, fails: a monitor with one poll in flight is stopped; the poll then
  completes with statistics and the \<open>data\<close> listener throws. After \<open>stopped\<close> the
  monitor emits a \<open>data\<close> event and an \<open>error\<close> event.
\<close>

theorem stop_straggler_counterexample:
  "emitted (fst (mrun throwing_listeners (new_monitor 1234 500, ())
      [CallStart, StartResumes (Some pinfo), CallStop, PollResumes (Stats (Num 10) (Num 100) None) 20])) =
   [StoppedEv, DataEv \<lparr>timestamp = 20, cpu = Num 10, memory = Num 100, ppid = None\<rparr>,
    ErrorEv ''FOREIGN KEY constraint failed'']"
  by (simp add: mrun_def throwing_listeners_def server_eval)

text \<open>
  The registry reaches this: with foreign keys enforced, the session is deleted over HTTP
  while its monitor runs, then the monitor is stopped while a poll is in flight.
\<close>

lemma registry_straggler_pair:
  "let s = run (init_server True avg)
        (started_1234 @
         [HttpDelete ''u1'', Message 1 (Stop 1234) 15, PollDone 0 (Stats (Num 10) (Num 100) None) 20])
   in map_option (emitted \<circ> cfg) (monitors s 0) =
        Some [StoppedEv, DataEv \<lparr>timestamp = 20, cpu = Num 10, memory = Num 100, ppid = None\<rparr>,
              ErrorEv ''FOREIGN KEY constraint failed''] \<and>
      outbox s =
        [Broadcast (StartedMsg session_u1 pinfo), Broadcast (StoppedMsg None),
         Broadcast (ErrorMsg ''FOREIGN KEY constraint failed'' (Some ''u1''))]"
  by (simp add: started_1234_def session_u1_def pinfo_def server_eval store_eval)

text \<open>
  So does a sample whose cpu is \<open>NaN\<close>, with either foreign-key setting and with the
  session in place: the insert violates \<open>NOT NULL\<close>.
\<close>

lemma registry_straggler_pair_nan:
  "let s = run (init_server fk avg)
        (started_1234 @
         [Message 1 (Stop 1234) 15, PollDone 0 (Stats NaN (Num 100) None) 20])
   in map_option (emitted \<circ> cfg) (monitors s 0) =
        Some [StoppedEv, DataEv \<lparr>timestamp = 20, cpu = NaN, memory = Num 100, ppid = None\<rparr>,
              ErrorEv ''NOT NULL constraint failed: data_points.cpu''] \<and>
      last (outbox s) =
        Broadcast (ErrorMsg ''NOT NULL constraint failed: data_points.cpu'' (Some ''u1''))"
  by (simp add: started_1234_def session_u1_def pinfo_def server_eval store_eval)

text \<open>
  Claim C9, amended: take a monitor with no suspended \<open>start\<close> and at most one poll in
  flight or else one pending timeout, and any later sequence of calls of \<open>stop\<close>,
  resumptions and timer firings (no further call of \<open>start\<close>). After \<open>stop\<close> returns
  the monitor is not running and has no timeout, at every later moment; at most the one
  poll that was in flight completes, and the events emitted after the \<open>stopped\<close> of that
  \<open>stop\<close> contain at most one \<open>data\<close> and at most one \<open>error\<close> event, and at most one
  of the two kinds together when the \<open>data\<close> listener never throws.
\<close>

theorem stop_cancels:
  assumes "one_chain m" "CallStart \<notin> set evs"
  shows "case stop L m w of (m1, w1) \<Rightarrow>
           (case mrun L (m1, w1) evs of (m2, w2) \<Rightarrow>
              \<not> isRunning m2 \<and> timer m2 = None \<and> timers m2 = [] \<and>
              polling m2 \<le> polling m \<and> polling m \<le> 1 \<and>
              (\<exists>new. emitted m2 = emitted m1 @ new \<and>
                 data_events new \<le> polling m \<and> error_events new \<le> polling m \<and>
                 (never_throws L \<longrightarrow> data_events new + error_events new \<le> polling m)))"
proof -
  obtain m1 w1 where st: "stop L m w = (m1, w1)" by (cases "stop L m w")
  obtain m2 w2 where run: "mrun L (m1, w1) evs = (m2, w2)" by (cases "mrun L (m1, w1) evs")
  from halted_stop [OF assms(1) st]
  have h1: "halted m1" and p1: "polling m1 = polling m" and le: "polling m \<le> 1" by simp_all
  from halted_mrun [OF h1 assms(2), of L w1] run
  have "straggler_step (never_throws L) m1 m2" by simp
  with p1 obtain new where
    "halted m2" "emitted m2 = emitted m1 @ new"
    "data_events new + polling m2 \<le> polling m"
    "error_events new + polling m2 \<le> polling m"
    "never_throws L \<longrightarrow> data_events new + error_events new + polling m2 \<le> polling m"
    unfolding straggler_step_def by auto
  then have "\<not> isRunning m2 \<and> timer m2 = None \<and> timers m2 = [] \<and> polling m2 \<le> polling m \<and>
      (\<exists>new. emitted m2 = emitted m1 @ new \<and>
         data_events new \<le> polling m \<and> error_events new \<le> polling m \<and>
         (never_throws L \<longrightarrow> data_events new + error_events new \<le> polling m))"
    by (auto simp: halted_def intro!: exI [of _ new])
  with st run le show ?thesis by simp
qed

theorem stop_cancels_witness:
  "one_chain (fst (mrun quiet_listeners (new_monitor 1234 500, ())
      [CallStart, StartResumes (Some pinfo)])) \<and>
   never_throws quiet_listeners \<and>
   (case mrun quiet_listeners (new_monitor 1234 500, ())
      [CallStart, StartResumes (Some pinfo), CallStop,
       PollResumes (Stats (Num 10) (Num 100) None) 20, TimerFires 0, PollResumes (Failure ''x'') 30] of
      (m2, w2) \<Rightarrow>
        \<not> isRunning m2 \<and> timers m2 = [] \<and>
        emitted m2 = [StoppedEv, DataEv \<lparr>timestamp = 20, cpu = Num 10, memory = Num 100, ppid = None\<rparr>])"
proof -
  let ?m = "fst (mrun quiet_listeners (new_monitor 1234 500, ())
      [CallStart, StartResumes (Some pinfo)])"
  let ?evs = "[PollResumes (Stats (Num 10) (Num 100) None) 20, TimerFires 0, PollResumes (Failure ''x'') 30]"
  have c: "one_chain ?m"
    by (simp add: mrun_def one_chain_def server_eval)
  have n: "CallStart \<notin> set ?evs" by simp
  have t: "never_throws quiet_listeners"
    by (simp add: never_throws_def quiet_listeners_def)
  have e: "case mrun quiet_listeners (new_monitor 1234 500, ())
      [CallStart, StartResumes (Some pinfo), CallStop,
       PollResumes (Stats (Num 10) (Num 100) None) 20, TimerFires 0, PollResumes (Failure ''x'') 30] of
      (m2, w2) \<Rightarrow>
        emitted m2 = [StoppedEv, DataEv \<lparr>timestamp = 20, cpu = Num 10, memory = Num 100, ppid = None\<rparr>]"
    by (simp add: mrun_def quiet_listeners_def server_eval)
  have r: "mrun quiet_listeners (new_monitor 1234 500, ())
      [CallStart, StartResumes (Some pinfo), CallStop,
       PollResumes (Stats (Num 10) (Num 100) None) 20, TimerFires 0, PollResumes (Failure ''x'') 30] =
      mrun quiet_listeners (stop quiet_listeners ?m ()) ?evs"
    by (simp add: mrun_def)
  from stop_cancels [OF c n, of quiet_listeners "()"] c t e show ?thesis
    unfolding r by (auto split: prod.splits)
qed


subsection \<open>The monitors that the registry stops\<close>

text \<open>
  \<open>stop\<close> is called in two places: by the \<open>stop\<close> command on the monitor of an active
  entry, and by \<open>poll\<close> on its own monitor. In every state the server can reach, both
  are monitors with one chain.
\<close>

lemma fresh_not_one_chain: "fresh m \<Longrightarrow> \<not> one_chain m"
  by (simp add: fresh_def one_chain_def)

lemma halted_one_chain: "halted m \<Longrightarrow> polling m \<le> 1 \<Longrightarrow> one_chain m"
  by (simp add: halted_def one_chain_def)

lemma one_chain_stop: "one_chain m \<Longrightarrow> one_chain (fst (stop L m w))"
  using halted_stop [of m L w "fst (stop L m w)" "snd (stop L m w)"]
  by (simp add: halted_one_chain)

lemma one_chain_reschedule:
  "starting m = 0 \<Longrightarrow> polling m = 0 \<Longrightarrow> timers m = [] \<Longrightarrow> one_chain (reschedule m)"
  by (simp add: reschedule_def one_chain_def)

lemma one_chain_poll_catch:
  "starting m = 0 \<Longrightarrow> polling m = 0 \<Longrightarrow> timers m = [] \<Longrightarrow> one_chain (fst (poll_catch L msg m w))"
  by (auto simp: poll_catch_def reschedule_def stop_def one_chain_def Let_def
      split: option.splits prod.splits)

lemma one_chain_poll_resume:
  assumes "one_chain m" "polling m \<noteq> 0"
  shows "one_chain (fst (poll_resume L res now m w))"
proof -
  from assms have m: "starting m = 0" "polling m = 1" "timers m = []"
    by (auto simp: one_chain_def split: list.splits)
  show ?thesis
  proof (cases res)
    case (Stats c mem pp)
    with m show ?thesis
      by (auto simp: poll_resume_def Let_def one_chain_reschedule one_chain_poll_catch
          split: prod.splits option.splits)
  next
    case (Failure msg)
    with m show ?thesis
      by (simp add: poll_resume_def Let_def one_chain_poll_catch)
  next
    case Thrown
    with m show ?thesis
      by (simp add: poll_resume_def Let_def one_chain_reschedule)
  qed
qed

lemma one_chain_timer_fire:
  "one_chain m \<Longrightarrow> t \<in> set (timers m) \<Longrightarrow> one_chain (timer_fire t m)"
  by (auto simp: one_chain_def timer_fire_def poll_def split: list.splits)

lemma one_chain_start_resume: "fresh m \<Longrightarrow> one_chain (fst (start_resume info m))"
  by (auto simp: fresh_def one_chain_def start_resume_def poll_def Let_def split: option.splits)

lemma fresh_new_monitor: "start_call (new_monitor p i) = (m, b) \<Longrightarrow> fresh m \<and> b"
  by (auto simp: start_call_def new_monitor_def fresh_def)

text \<open>The listeners of the registry leave the monitors and the tasks alone.\<close>

lemma frame_refl: "frame s s"
  by (simp add: frame_def)

lemma frame_trans: "frame s s1 \<Longrightarrow> frame s1 s2 \<Longrightarrow> frame s s2"
  by (simp add: frame_def)

lemma frame_on_stopped: "frame s (on_stopped (cell_listeners c) s)"
  by (simp add: frame_def cell_listeners_def server_listeners_def)

lemma frame_on_error: "frame s (on_error (cell_listeners c) msg s)"
  by (simp add: frame_def cell_listeners_def server_listeners_def broadcast_def)

lemma frame_on_data: "frame s (snd (on_data (cell_listeners c) dp s))"
  by (auto simp: frame_def cell_listeners_def server_listeners_def broadcast_def addDataPoint_def
      split: sum.splits if_splits js_number.splits)

lemma frame_stop: "frame s (snd (stop (cell_listeners c) m s))"
  by (simp add: stop_def Let_def frame_on_stopped)

lemma frame_poll_catch: "frame s (snd (poll_catch (cell_listeners c) msg m s))"
proof (cases "str_includes msg ''No matching pid found'' \<or> str_includes msg ''No such process''")
  case True
  have "frame s (on_error (cell_listeners c) ''Process terminated'' (snd (stop (cell_listeners c) m s)))"
    by (rule frame_trans [OF frame_stop frame_on_error])
  with True show ?thesis
    by (auto simp: poll_catch_def split: prod.splits)
next
  case False
  then show ?thesis
    by (simp add: poll_catch_def frame_on_error)
qed

lemma frame_poll_resume: "frame s (snd (poll_resume (cell_listeners c) res now m s))"
proof (cases res)
  case (Stats cp mem pp)
  let ?dp = "\<lparr>timestamp = now, cpu = cp, memory = mem, ppid = pp\<rparr>"
  obtain r s1 where od: "on_data (cell_listeners c) ?dp s = (r, s1)"
    by (cases "on_data (cell_listeners c) ?dp s")
  with frame_on_data [of s c ?dp] have f1: "frame s s1" by simp
  show ?thesis
  proof (cases r)
    case None
    with od Stats f1 show ?thesis by (simp add: poll_resume_def Let_def)
  next
    case (Some msg)
    with od Stats frame_trans [OF f1 frame_poll_catch] show ?thesis
      by (simp add: poll_resume_def Let_def)
  qed
next
  case (Failure msg)
  then show ?thesis by (simp add: poll_resume_def Let_def frame_poll_catch)
next
  case Thrown
  then show ?thesis by (simp add: poll_resume_def Let_def frame_refl)
qed


text \<open>Every event of the server keeps the invariant.\<close>

lemma registry_inv_frame:
  assumes inv: "registry_inv s" and fr: "frame s s'"
  shows "registry_inv s'"
proof -
  from fr have eq: "monitors s' = monitors s" "tasks s' = tasks s"
      "next_monitor s' = next_monitor s"
    and sub: "\<And>p e. activeMonitors s' p = Some e \<Longrightarrow> activeMonitors s p = Some e"
    by (auto simp: frame_def)
  from inv have act: "\<And>p e. activeMonitors s p = Some e \<Longrightarrow>
      \<exists>c. monitors s (monitor e) = Some c \<and> one_chain (cfg c)"
    unfolding registry_inv_def by blast
  have "\<forall>p e. activeMonitors s' p = Some e \<longrightarrow>
      (\<exists>c. monitors s (monitor e) = Some c \<and> one_chain (cfg c))"
    using sub act by blast
  with inv show ?thesis
    unfolding registry_inv_def eq by blast
qed

lemma registry_inv_update:
  assumes inv: "registry_inv s" and h: "monitors s h = Some c" and oc: "one_chain (cfg c)"
    and fr: "frame s s1" and oc': "one_chain m'"
  shows "registry_inv (s1\<lparr>monitors := (monitors s1)(h \<mapsto> c\<lparr>cfg := m'\<rparr>)\<rparr>)"
proof -
  from registry_inv_frame [OF inv fr] have inv1: "registry_inv s1" .
  from fr h have h1: "monitors s1 h = Some c" by (simp add: frame_def)
  have nf: "\<not> fresh (cfg c)" using oc fresh_not_one_chain by blast
  from inv1 h1 have lt: "h < next_monitor s1" by (simp add: registry_inv_def)
  have 1: "\<forall>h' c'. ((monitors s1)(h \<mapsto> c\<lparr>cfg := m'\<rparr>)) h' = Some c' \<longrightarrow>
      h' < next_monitor s1 \<and> (one_chain (cfg c') \<or> fresh (cfg c'))"
    using inv1 lt oc' by (auto simp: registry_inv_def)
  have 2: "\<forall>k ws p se i h'. tasks s1 k = Some (AwaitMonitorStart ws p se i h') \<longrightarrow>
      (\<exists>c'. ((monitors s1)(h \<mapsto> c\<lparr>cfg := m'\<rparr>)) h' = Some c' \<and> fresh (cfg c')) \<and>
      (\<forall>k' ws' p' se' i'. tasks s1 k' = Some (AwaitMonitorStart ws' p' se' i' h') \<longrightarrow> k' = k)"
  proof (intro allI impI)
    fix k ws p se i h'
    assume t: "tasks s1 k = Some (AwaitMonitorStart ws p se i h')"
    with inv1 have a: "\<exists>c'. monitors s1 h' = Some c' \<and> fresh (cfg c')"
      and b: "\<forall>k' ws' p' se' i'. tasks s1 k' = Some (AwaitMonitorStart ws' p' se' i' h') \<longrightarrow> k' = k"
      unfolding registry_inv_def by blast+
    from a h1 nf have "h' \<noteq> h" by auto
    with a b show "(\<exists>c'. ((monitors s1)(h \<mapsto> c\<lparr>cfg := m'\<rparr>)) h' = Some c' \<and> fresh (cfg c')) \<and>
      (\<forall>k' ws' p' se' i'. tasks s1 k' = Some (AwaitMonitorStart ws' p' se' i' h') \<longrightarrow> k' = k)"
      by simp
  qed
  have 3: "\<forall>p e. activeMonitors s1 p = Some e \<longrightarrow>
      (\<exists>c'. ((monitors s1)(h \<mapsto> c\<lparr>cfg := m'\<rparr>)) (monitor e) = Some c' \<and> one_chain (cfg c'))"
    using inv1 oc' by (auto simp: registry_inv_def)
  from 1 2 3 show ?thesis by (simp add: registry_inv_def)
qed

lemma registry_inv_init: "registry_inv (init_server fk avg)"
  by (simp add: registry_inv_def init_server_def)

lemma registry_inv_handle_start: "registry_inv s \<Longrightarrow> registry_inv (handle_start ws p nm s)"
  by (auto simp: handle_start_def ws_send_def spawn_def registry_inv_def)

lemma registry_inv_http_delete: "registry_inv s \<Longrightarrow> registry_inv (http_delete sid s)"
  by (simp add: http_delete_def registry_inv_def)

lemma registry_inv_http_patch: "registry_inv s \<Longrightarrow> registry_inv (http_patch sid nm s)"
  by (simp add: http_patch_def registry_inv_def)

lemma registry_inv_handle_stop:
  assumes inv: "registry_inv s"
  shows "registry_inv (handle_stop p now s)"
proof (cases "activeMonitors s p")
  case None
  with inv show ?thesis by (simp add: handle_stop_def)
next
  case (Some e)
  with inv obtain c where c: "monitors s (monitor e) = Some c" and oc: "one_chain (cfg c)"
    unfolding registry_inv_def by blast
  obtain m s1 where st: "stop (cell_listeners c) (cfg c) s = (m, s1)"
    by (cases "stop (cell_listeners c) (cfg c) s")
  from frame_stop [of s c "cfg c"] st have fr: "frame s s1" by simp
  from one_chain_stop [OF oc, of "cell_listeners c" s] st have oc': "one_chain m" by simp
  let ?s2 = "s1\<lparr>monitors := (monitors s1)(monitor e \<mapsto> c\<lparr>cfg := m\<rparr>)\<rparr>"
  from registry_inv_update [OF inv c oc fr oc'] have inv2: "registry_inv ?s2" .
  have "frame ?s2 (handle_stop p now s)"
    using Some c st
    by (simp add: handle_stop_def Let_def frame_def broadcast_def endSession_def split: prod.splits)
  from registry_inv_frame [OF inv2 this] show ?thesis .
qed

lemma registry_inv_poll_done:
  assumes inv: "registry_inv s"
  shows "registry_inv (poll_done h res now s)"
proof (cases "monitors s h")
  case None
  with inv show ?thesis by (simp add: poll_done_def)
next
  case (Some c)
  show ?thesis
  proof (cases "polling (cfg c) = 0")
    case True
    with Some inv show ?thesis by (simp add: poll_done_def)
  next
    case False
    from inv Some have "one_chain (cfg c) \<or> fresh (cfg c)" by (simp add: registry_inv_def)
    with False have oc: "one_chain (cfg c)" by (auto simp: fresh_def)
    obtain m s1 where pr: "poll_resume (cell_listeners c) res now (cfg c) s = (m, s1)"
      by (cases "poll_resume (cell_listeners c) res now (cfg c) s")
    from frame_poll_resume [of s c res now "cfg c"] pr have fr: "frame s s1" by simp
    from one_chain_poll_resume [OF oc False, of "cell_listeners c" res now s] pr
    have oc': "one_chain m" by simp
    from registry_inv_update [OF inv Some oc fr oc'] Some False pr show ?thesis
      by (simp add: poll_done_def)
  qed
qed

lemma registry_inv_timer_fired:
  assumes inv: "registry_inv s"
  shows "registry_inv (timer_fired h t s)"
proof (cases "monitors s h")
  case None
  with inv show ?thesis by (simp add: timer_fired_def)
next
  case (Some c)
  show ?thesis
  proof (cases "t \<in> set (timers (cfg c))")
    case False
    with Some inv show ?thesis by (simp add: timer_fired_def)
  next
    case True
    from inv Some have "one_chain (cfg c) \<or> fresh (cfg c)" by (simp add: registry_inv_def)
    with True have oc: "one_chain (cfg c)" by (auto simp: fresh_def)
    from registry_inv_update [OF inv Some oc frame_refl one_chain_timer_fire [OF oc True]]
      Some True
    show ?thesis by (simp add: timer_fired_def)
  qed
qed


lemma registry_inv_drop_task:
  assumes inv: "registry_inv s"
  shows "registry_inv (s\<lparr>tasks := (tasks s)(k := None)\<rparr>)"
proof -
  have "\<forall>k' ws p se i h. ((tasks s)(k := None)) k' = Some (AwaitMonitorStart ws p se i h) \<longrightarrow>
      (\<exists>c. monitors s h = Some c \<and> fresh (cfg c)) \<and>
      (\<forall>k'' ws' p' se' i'.
          ((tasks s)(k := None)) k'' = Some (AwaitMonitorStart ws' p' se' i' h) \<longrightarrow> k'' = k')"
  proof (intro allI impI)
    fix k' ws p se i h
    assume "((tasks s)(k := None)) k' = Some (AwaitMonitorStart ws p se i h)"
    then have t: "tasks s k' = Some (AwaitMonitorStart ws p se i h)"
      by (simp split: if_splits)
    with inv have a: "\<exists>c. monitors s h = Some c \<and> fresh (cfg c)"
      and b: "\<forall>k'' ws' p' se' i'. tasks s k'' = Some (AwaitMonitorStart ws' p' se' i' h) \<longrightarrow> k'' = k'"
      unfolding registry_inv_def by blast+
    from b have "\<forall>k'' ws' p' se' i'.
        ((tasks s)(k := None)) k'' = Some (AwaitMonitorStart ws' p' se' i' h) \<longrightarrow> k'' = k'"
      by (simp split: if_splits)
    with a show "(\<exists>c. monitors s h = Some c \<and> fresh (cfg c)) \<and>
      (\<forall>k'' ws' p' se' i'.
          ((tasks s)(k := None)) k'' = Some (AwaitMonitorStart ws' p' se' i' h) \<longrightarrow> k'' = k')"
      by blast
  qed
  with inv show ?thesis by (simp add: registry_inv_def)
qed

lemma registry_inv_monitorD:
  assumes "registry_inv s" "monitors s h = Some c"
  shows "h < next_monitor s \<and> (one_chain (cfg c) \<or> fresh (cfg c))"
proof -
  from assms(1) have "\<forall>h c. monitors s h = Some c \<longrightarrow>
      h < next_monitor s \<and> (one_chain (cfg c) \<or> fresh (cfg c))"
    by (simp add: registry_inv_def)
  from this [rule_format, OF assms(2)] show ?thesis .
qed

lemma registry_inv_taskD:
  assumes "registry_inv s" "tasks s k = Some (AwaitMonitorStart ws p se i h)"
  shows "\<exists>c. monitors s h = Some c \<and> fresh (cfg c)"
    and "\<And>k' ws' p' se' i'. tasks s k' = Some (AwaitMonitorStart ws' p' se' i' h) \<Longrightarrow> k' = k"
proof -
  from assms(1) have "\<forall>k ws p se i h. tasks s k = Some (AwaitMonitorStart ws p se i h) \<longrightarrow>
        (\<exists>c. monitors s h = Some c \<and> fresh (cfg c)) \<and>
        (\<forall>k' ws' p' se' i'. tasks s k' = Some (AwaitMonitorStart ws' p' se' i' h) \<longrightarrow> k' = k)"
    by (simp add: registry_inv_def)
  from this [rule_format, OF assms(2)]
  show "\<exists>c. monitors s h = Some c \<and> fresh (cfg c)"
    and "\<And>k' ws' p' se' i'. tasks s k' = Some (AwaitMonitorStart ws' p' se' i' h) \<Longrightarrow> k' = k"
    by blast+
qed

lemma registry_inv_activeD:
  assumes "registry_inv s" "activeMonitors s p = Some e"
  shows "\<exists>c. monitors s (monitor e) = Some c \<and> one_chain (cfg c)"
proof -
  from assms(1) have "\<forall>p e. activeMonitors s p = Some e \<longrightarrow>
      (\<exists>c. monitors s (monitor e) = Some c \<and> one_chain (cfg c))"
    by (simp add: registry_inv_def)
  from this [rule_format, OF assms(2)] show ?thesis .
qed

lemma registry_invI:
  assumes "\<And>h c. monitors s h = Some c \<Longrightarrow>
        h < next_monitor s \<and> (one_chain (cfg c) \<or> fresh (cfg c))"
    and "\<And>k ws p se i h. tasks s k = Some (AwaitMonitorStart ws p se i h) \<Longrightarrow>
        \<exists>c. monitors s h = Some c \<and> fresh (cfg c)"
    and "\<And>k ws p se i h k' ws' p' se' i'.
        tasks s k = Some (AwaitMonitorStart ws p se i h) \<Longrightarrow>
        tasks s k' = Some (AwaitMonitorStart ws' p' se' i' h) \<Longrightarrow> k' = k"
    and "\<And>p e. activeMonitors s p = Some e \<Longrightarrow>
        \<exists>c. monitors s (monitor e) = Some c \<and> one_chain (cfg c)"
  shows "registry_inv s"
  unfolding registry_inv_def
proof (intro conjI allI impI)
  fix h c assume "monitors s h = Some c"
  from assms(1) [OF this] show "h < next_monitor s" and "one_chain (cfg c) \<or> fresh (cfg c)"
    by simp_all
next
  fix k ws p se i h assume "tasks s k = Some (AwaitMonitorStart ws p se i h)"
  from assms(2) [OF this] show "\<exists>c. monitors s h = Some c \<and> fresh (cfg c)" .
next
  fix k ws p se i h k' ws' p' se' i'
  assume "tasks s k = Some (AwaitMonitorStart ws p se i h)"
    "tasks s k' = Some (AwaitMonitorStart ws' p' se' i' h)"
  from assms(3) [OF this] show "k' = k" .
next
  fix p e assume "activeMonitors s p = Some e"
  from assms(4) [OF this] show "\<exists>c. monitors s (monitor e) = Some c \<and> one_chain (cfg c)" .
qed


lemma registry_inv_new_monitor:
  assumes inv: "registry_inv s" and fr: "fresh m"
  shows "registry_inv
    (spawn (AwaitMonitorStart ws p se i (next_monitor s))
       (s\<lparr>db := d,
          monitors := (monitors s)(next_monitor s \<mapsto> \<lparr>cfg = m, cap_session = se, cap_pid = p\<rparr>),
          next_monitor := Suc (next_monitor s)\<rparr>))"
    (is "registry_inv ?s'")
proof -
  let ?h = "next_monitor s"
  have none: "monitors s ?h = None"
  proof (cases "monitors s ?h")
    case (Some c)
    from registry_inv_monitorD [OF inv Some] show ?thesis by simp
  qed simp
  have mons: "monitors ?s' = (monitors s)(?h \<mapsto> \<lparr>cfg = m, cap_session = se, cap_pid = p\<rparr>)"
    and tsk: "tasks ?s' = (tasks s)(next_task s \<mapsto> AwaitMonitorStart ws p se i ?h)"
    and nxt: "next_monitor ?s' = Suc ?h"
    and act: "activeMonitors ?s' = activeMonitors s"
    by (simp_all add: spawn_def)
  have old: "monitors ?s' h = monitors s h" if "monitors s h \<noteq> None" for h
    using that none unfolding mons by (cases "h = ?h") simp_all
  show ?thesis
  proof (rule registry_invI)
    fix h c
    assume a: "monitors ?s' h = Some c"
    show "h < next_monitor ?s' \<and> (one_chain (cfg c) \<or> fresh (cfg c))"
    proof (cases "h = ?h")
      case True
      with a have "c = \<lparr>cfg = m, cap_session = se, cap_pid = p\<rparr>" unfolding mons by simp
      with fr True show ?thesis unfolding nxt by simp
    next
      case False
      with a have "monitors s h = Some c" unfolding mons by simp
      from registry_inv_monitorD [OF inv this] show ?thesis unfolding nxt by simp
    qed
  next
    fix k ws' p' se' i' h
    assume t: "tasks ?s' k = Some (AwaitMonitorStart ws' p' se' i' h)"
    show "\<exists>c. monitors ?s' h = Some c \<and> fresh (cfg c)"
    proof (cases "k = next_task s")
      case True
      with t have "h = ?h" unfolding tsk by simp
      with fr show ?thesis unfolding mons by simp
    next
      case False
      with t have "tasks s k = Some (AwaitMonitorStart ws' p' se' i' h)" unfolding tsk by simp
      from registry_inv_taskD(1) [OF inv this] obtain c
        where c: "monitors s h = Some c" "fresh (cfg c)" by blast
      then have "monitors ?s' h = Some c" using old [of h] by simp
      with c show ?thesis by blast
    qed
  next
    fix k ws1 p1 se1 i1 h k' ws2 p2 se2 i2
    assume t1: "tasks ?s' k = Some (AwaitMonitorStart ws1 p1 se1 i1 h)"
      and t2: "tasks ?s' k' = Some (AwaitMonitorStart ws2 p2 se2 i2 h)"
    have old_h: "h \<noteq> ?h" if "j \<noteq> next_task s"
      "tasks ?s' j = Some (AwaitMonitorStart w q x y h)" for j w q x y
    proof -
      from that have "tasks s j = Some (AwaitMonitorStart w q x y h)" unfolding tsk by simp
      from registry_inv_taskD(1) [OF inv this] none show ?thesis by auto
    qed
    have new_h: "h = ?h" if "j = next_task s"
      "tasks ?s' j = Some (AwaitMonitorStart w q x y h)" for j w q x y
      using that unfolding tsk by simp
    show "k' = k"
    proof (cases "k = next_task s")
      case True
      show ?thesis
      proof (cases "k' = next_task s")
        case True
        with \<open>k = next_task s\<close> show ?thesis by simp
      next
        case False
        from old_h [OF False t2] new_h [OF True t1] show ?thesis by simp
      qed
    next
      case False
      show ?thesis
      proof (cases "k' = next_task s")
        case True
        from old_h [OF False t1] new_h [OF True t2] show ?thesis by simp
      next
        case k': False
        from False t1 have a: "tasks s k = Some (AwaitMonitorStart ws1 p1 se1 i1 h)"
          unfolding tsk by simp
        from k' t2 have b: "tasks s k' = Some (AwaitMonitorStart ws2 p2 se2 i2 h)"
          unfolding tsk by simp
        from registry_inv_taskD(2) [OF inv a b] show ?thesis .
      qed
    qed
  next
    fix q e
    assume "activeMonitors ?s' q = Some e"
    then have "activeMonitors s q = Some e" unfolding act .
    from registry_inv_activeD [OF inv this] obtain c
      where c: "monitors s (monitor e) = Some c" "one_chain (cfg c)" by blast
    then have "monitors ?s' (monitor e) = Some c" using old [of "monitor e"] by simp
    with c show "\<exists>c. monitors ?s' (monitor e) = Some c \<and> one_chain (cfg c)" by blast
  qed
qed


lemma registry_inv_outbox: "registry_inv s \<Longrightarrow> registry_inv (s\<lparr>outbox := out\<rparr>)"
  by (simp add: registry_inv_def)

lemma registry_inv_ws_send: "registry_inv s \<Longrightarrow> registry_inv (ws_send ws msg s)"
  by (simp add: ws_send_def registry_inv_outbox)

lemma registry_inv_start_after_lookup:
  assumes inv: "registry_inv s"
  shows "registry_inv (start_after_lookup ws p nm info uuid now loc s)"
proof -
  have fr: "fresh ((new_monitor p 500)\<lparr>starting := Suc 0\<rparr>)"
    by (simp add: fresh_def new_monitor_def)
  have sc: "start_call (new_monitor p 500) = ((new_monitor p 500)\<lparr>starting := Suc 0\<rparr>, True)"
    by (simp add: start_call_def new_monitor_def)
  show ?thesis
  proof (cases info)
    case None
    with inv show ?thesis by (simp add: start_after_lookup_def registry_inv_ws_send)
  next
    case (Some i)
    obtain nm' where nm': "nm' = (case nm of None \<Rightarrow> info_name i @ '' - '' @ loc
        | Some n \<Rightarrow> if n = [] then info_name i @ '' - '' @ loc else n)" by simp
    have eq: "start_after_lookup ws p nm info uuid now loc s =
      (case createSession (db s) uuid now nm' p (info_name i) (cmd i) of
         Inl e \<Rightarrow> invalid_message ws s
       | Inr r \<Rightarrow>
           spawn (AwaitMonitorStart ws p (snd r) i (next_monitor s))
             (s\<lparr>db := fst r,
                monitors := (monitors s)(next_monitor s \<mapsto>
                  \<lparr>cfg = (new_monitor p 500)\<lparr>starting := Suc 0\<rparr>,
                   cap_session = snd r, cap_pid = p\<rparr>),
                next_monitor := Suc (next_monitor s)\<rparr>))"
      unfolding start_after_lookup_def Some nm' Let_def sc
      by (simp split: sum.split prod.split)
    show ?thesis
    proof (cases "createSession (db s) uuid now nm' p (info_name i) (cmd i)")
      case (Inl e)
      with inv show ?thesis
        unfolding eq by (simp add: invalid_message_def registry_inv_ws_send)
    next
      case (Inr r)
      with registry_inv_new_monitor [OF inv fr] show ?thesis
        unfolding eq by simp
    qed
  qed
qed


lemma registry_inv_resumed:
  assumes inv: "registry_inv s"
    and t: "tasks s k = Some (AwaitMonitorStart ws p se i h)"
    and c: "monitors s h = Some c" and oc: "one_chain m"
  shows "registry_inv (s\<lparr>tasks := (tasks s)(k := None), monitors := (monitors s)(h \<mapsto> c\<lparr>cfg := m\<rparr>)\<rparr>)"
    (is "registry_inv ?s'")
proof (rule registry_invI)
  fix h' c'
  assume a: "monitors ?s' h' = Some c'"
  show "h' < next_monitor ?s' \<and> (one_chain (cfg c') \<or> fresh (cfg c'))"
  proof (cases "h' = h")
    case True
    with a have "cfg c' = m" by auto
    with oc True registry_inv_monitorD [OF inv c] show ?thesis by simp
  next
    case False
    with a have "monitors s h' = Some c'" by simp
    from registry_inv_monitorD [OF inv this] show ?thesis by simp
  qed
next
  fix k1 ws1 p1 se1 i1 h1
  assume "tasks ?s' k1 = Some (AwaitMonitorStart ws1 p1 se1 i1 h1)"
  then have ne: "k1 \<noteq> k" and t1: "tasks s k1 = Some (AwaitMonitorStart ws1 p1 se1 i1 h1)"
    by (simp_all split: if_splits)
  have "h1 \<noteq> h"
  proof
    assume "h1 = h"
    with t1 registry_inv_taskD(2) [OF inv t] have "k1 = k" by blast
    with ne show False by simp
  qed
  moreover from registry_inv_taskD(1) [OF inv t1] obtain c1
    where "monitors s h1 = Some c1" "fresh (cfg c1)" by blast
  ultimately show "\<exists>c. monitors ?s' h1 = Some c \<and> fresh (cfg c)" by simp
next
  fix k1 ws1 p1 se1 i1 h1 k2 ws2 p2 se2 i2
  assume "tasks ?s' k1 = Some (AwaitMonitorStart ws1 p1 se1 i1 h1)"
    "tasks ?s' k2 = Some (AwaitMonitorStart ws2 p2 se2 i2 h1)"
  then have "tasks s k1 = Some (AwaitMonitorStart ws1 p1 se1 i1 h1)"
    "tasks s k2 = Some (AwaitMonitorStart ws2 p2 se2 i2 h1)"
    by (simp_all split: if_splits)
  from registry_inv_taskD(2) [OF inv this] show "k2 = k1" .
next
  fix q e
  assume "activeMonitors ?s' q = Some e"
  then have "activeMonitors s q = Some e" by simp
  from registry_inv_activeD [OF inv this] obtain c1
    where c1: "monitors s (monitor e) = Some c1" "one_chain (cfg c1)" by blast
  show "\<exists>c. monitors ?s' (monitor e) = Some c \<and> one_chain (cfg c)"
  proof (cases "monitor e = h")
    case True
    with oc show ?thesis by simp
  next
    case False
    with c1 show ?thesis by simp
  qed
qed

lemma registry_inv_register:
  assumes inv: "registry_inv s" and c: "monitors s h = Some c" and oc: "one_chain (cfg c)"
  shows "registry_inv (register p se i h s)"
proof (rule registry_invI)
  fix h' c'
  assume "monitors (register p se i h s) h' = Some c'"
  then have "monitors s h' = Some c'" by (simp add: register_def broadcast_def)
  from registry_inv_monitorD [OF inv this]
  show "h' < next_monitor (register p se i h s) \<and> (one_chain (cfg c') \<or> fresh (cfg c'))"
    by (simp add: register_def broadcast_def)
next
  fix k1 ws1 p1 se1 i1 h1
  assume "tasks (register p se i h s) k1 = Some (AwaitMonitorStart ws1 p1 se1 i1 h1)"
  then have "tasks s k1 = Some (AwaitMonitorStart ws1 p1 se1 i1 h1)"
    by (simp add: register_def broadcast_def)
  from registry_inv_taskD(1) [OF inv this]
  show "\<exists>c. monitors (register p se i h s) h1 = Some c \<and> fresh (cfg c)"
    by (simp add: register_def broadcast_def)
next
  fix k1 ws1 p1 se1 i1 h1 k2 ws2 p2 se2 i2
  assume "tasks (register p se i h s) k1 = Some (AwaitMonitorStart ws1 p1 se1 i1 h1)"
    "tasks (register p se i h s) k2 = Some (AwaitMonitorStart ws2 p2 se2 i2 h1)"
  then have "tasks s k1 = Some (AwaitMonitorStart ws1 p1 se1 i1 h1)"
    "tasks s k2 = Some (AwaitMonitorStart ws2 p2 se2 i2 h1)"
    by (simp_all add: register_def broadcast_def)
  from registry_inv_taskD(2) [OF inv this] show "k2 = k1" .
next
  fix q e
  assume a: "activeMonitors (register p se i h s) q = Some e"
  show "\<exists>c. monitors (register p se i h s) (monitor e) = Some c \<and> one_chain (cfg c)"
  proof (cases "q = p")
    case True
    with a have "monitor e = h" by (auto simp: register_def broadcast_def)
    with c oc show ?thesis by (simp add: register_def broadcast_def)
  next
    case False
    with a have "activeMonitors s q = Some e" by (simp add: register_def broadcast_def)
    from registry_inv_activeD [OF inv this] show ?thesis
      by (simp add: register_def broadcast_def)
  qed
qed

lemma registry_inv_start_after_monitor:
  assumes inv: "registry_inv s"
    and t: "tasks s k = Some (AwaitMonitorStart ws p se i h)"
  shows "registry_inv (start_after_monitor ws p se i h info (s\<lparr>tasks := (tasks s)(k := None)\<rparr>))"
proof -
  from registry_inv_taskD(1) [OF inv t] obtain c
    where c: "monitors s h = Some c" and fr: "fresh (cfg c)" by blast
  obtain m r where sr: "start_resume info (cfg c) = (m, r)"
    by (cases "start_resume info (cfg c)")
  from one_chain_start_resume [OF fr, of info] sr have oc: "one_chain m" by simp
  let ?s1 = "s\<lparr>tasks := (tasks s)(k := None), monitors := (monitors s)(h \<mapsto> c\<lparr>cfg := m\<rparr>)\<rparr>"
  from registry_inv_resumed [OF inv t c oc] have inv1: "registry_inv ?s1" .
  have eq: "start_after_monitor ws p se i h info (s\<lparr>tasks := (tasks s)(k := None)\<rparr>) =
      (case r of Inl e \<Rightarrow> invalid_message ws ?s1 | Inr j \<Rightarrow> register p se i h ?s1)"
    using c sr by (simp add: start_after_monitor_def Let_def)
  show ?thesis
  proof (cases r)
    case (Inl e)
    with inv1 show ?thesis
      unfolding eq by (simp add: invalid_message_def registry_inv_ws_send)
  next
    case (Inr j)
    have "monitors ?s1 h = Some (c\<lparr>cfg := m\<rparr>)" by simp
    from registry_inv_register [OF inv1 this] oc Inr show ?thesis
      unfolding eq by simp
  qed
qed

lemma registry_inv_step:
  assumes inv: "registry_inv s"
  shows "registry_inv (step s ev)"
proof (cases ev)
  case (Message ws c now)
  with inv show ?thesis
    by (cases c) (simp_all add: registry_inv_handle_start registry_inv_handle_stop)
next
  case (HttpDelete sid)
  with inv show ?thesis by (simp add: registry_inv_http_delete)
next
  case (HttpPatch sid nm)
  with inv show ?thesis by (simp add: registry_inv_http_patch)
next
  case (LookupDone k info uuid now loc)
  show ?thesis
  proof (cases "tasks s k")
    case None
    with LookupDone inv show ?thesis by simp
  next
    case (Some t)
    show ?thesis
    proof (cases t)
      case (AwaitLookup ws p nm)
      from registry_inv_start_after_lookup [OF registry_inv_drop_task [OF inv]]
        LookupDone Some AwaitLookup
      show ?thesis by simp
    next
      case (AwaitMonitorStart ws p se i h)
      with LookupDone Some inv show ?thesis by simp
    qed
  qed
next
  case (MonitorStartDone k info)
  show ?thesis
  proof (cases "tasks s k")
    case None
    with MonitorStartDone inv show ?thesis by simp
  next
    case (Some t)
    show ?thesis
    proof (cases t)
      case (AwaitLookup ws p nm)
      with MonitorStartDone Some inv show ?thesis by simp
    next
      case (AwaitMonitorStart ws p se i h)
      with Some have "tasks s k = Some (AwaitMonitorStart ws p se i h)" by simp
      from registry_inv_start_after_monitor [OF inv this] MonitorStartDone Some AwaitMonitorStart
      show ?thesis by simp
    qed
  qed
next
  case (PollDone h res now)
  with inv show ?thesis by (simp add: registry_inv_poll_done)
next
  case (TimerFired h t)
  with inv show ?thesis by (simp add: registry_inv_timer_fired)
qed

lemma registry_inv_run: "registry_inv s \<Longrightarrow> registry_inv (run s evs)"
  unfolding run_def by (induction evs arbitrary: s) (simp_all add: registry_inv_step)

lemma registry_inv_reachable: "registry_inv (run (init_server fk avg) evs)"
  by (rule registry_inv_run [OF registry_inv_init])

text \<open>The foreign-key setting never changes.\<close>

lemma foreign_keys_endSession: "foreign_keys (fst (endSession d now sid)) = foreign_keys d"
  by (simp add: endSession_def Let_def)

lemma foreign_keys_createSession:
  "createSession d uuid now nm p pname c = Inr r \<Longrightarrow> foreign_keys (fst r) = foreign_keys d"
  by (auto simp: createSession_def Let_def split: if_splits)

lemma frame_monitors: "frame s s' \<Longrightarrow> monitors s' = monitors s"
  by (simp add: frame_def)

lemma frame_foreign_keys: "frame s s' \<Longrightarrow> foreign_keys (db s') = foreign_keys (db s)"
  by (simp add: frame_def)

text \<open>What each handler does to the store of monitors.\<close>

lemma monitors_handle_start: "monitors (handle_start ws p nm s) = monitors s"
  by (simp add: handle_start_def ws_send_def spawn_def)

lemma monitors_handle_stop:
  "monitors (handle_stop p now s) =
     (case activeMonitors s p of
        None \<Rightarrow> monitors s
      | Some e \<Rightarrow>
          (case monitors s (monitor e) of
             None \<Rightarrow> monitors s
           | Some c \<Rightarrow>
               (monitors s)(monitor e \<mapsto> c\<lparr>cfg := fst (stop (cell_listeners c) (cfg c) s)\<rparr>)))"
proof (cases "activeMonitors s p")
  case None
  then show ?thesis by (simp add: handle_stop_def)
next
  case (Some e)
  show ?thesis
  proof (cases "monitors s (monitor e)")
    case None
    with Some show ?thesis by (simp add: handle_stop_def)
  next
    case c: (Some c)
    obtain m s1 where st: "stop (cell_listeners c) (cfg c) s = (m, s1)"
      by (cases "stop (cell_listeners c) (cfg c) s")
    from frame_stop [of s c "cfg c"] st have "monitors s1 = monitors s"
      by (simp add: frame_def)
    with Some c st show ?thesis
      by (simp add: handle_stop_def Let_def broadcast_def split: prod.splits)
  qed
qed

lemma monitors_start_after_lookup:
  assumes "h < next_monitor s"
  shows "monitors (start_after_lookup ws p nm info uuid now loc s) h = monitors s h"
  using assms
  by (simp add: start_after_lookup_def Let_def start_call_def new_monitor_def spawn_def
      register_def broadcast_def invalid_message_def ws_send_def
      split: option.split sum.split prod.split)

lemma monitors_start_after_monitor:
  assumes "h \<noteq> h'"
  shows "monitors (start_after_monitor ws p se i h' info s) h = monitors s h"
  using assms
  by (simp add: start_after_monitor_def Let_def register_def broadcast_def invalid_message_def
      ws_send_def split: option.split sum.split prod.split)

lemma monitors_poll_done:
  "monitors (poll_done h res now s) =
     (case monitors s h of
        None \<Rightarrow> monitors s
      | Some c \<Rightarrow>
          if polling (cfg c) = 0 then monitors s
          else (monitors s)(h \<mapsto> c\<lparr>cfg := fst (poll_resume (cell_listeners c) res now (cfg c) s)\<rparr>))"
proof (cases "monitors s h")
  case None
  then show ?thesis by (simp add: poll_done_def)
next
  case (Some c)
  obtain m s1 where pr: "poll_resume (cell_listeners c) res now (cfg c) s = (m, s1)"
    by (cases "poll_resume (cell_listeners c) res now (cfg c) s")
  from frame_poll_resume [of s c res now "cfg c"] pr have "monitors s1 = monitors s"
    by (simp add: frame_def)
  with Some pr show ?thesis by (simp add: poll_done_def)
qed

lemma foreign_keys_step: "foreign_keys (db (step s ev)) = foreign_keys (db s)"
proof (cases ev)
  case (Message ws c now)
  show ?thesis
  proof (cases c)
    case (Start p nm)
    with Message show ?thesis by (simp add: handle_start_def ws_send_def spawn_def)
  next
    case (Stop p)
    show ?thesis
    proof (cases "activeMonitors s p")
      case None
      with Message Stop show ?thesis by (simp add: handle_stop_def)
    next
      case (Some e)
      show ?thesis
      proof (cases "monitors s (monitor e)")
        case None
        with Some Message Stop show ?thesis by (simp add: handle_stop_def)
      next
        case c0: (Some c0)
        obtain m s1 where st: "stop (cell_listeners c0) (cfg c0) s = (m, s1)"
          by (cases "stop (cell_listeners c0) (cfg c0) s")
        from frame_stop [of s c0 "cfg c0"] st have "foreign_keys (db s1) = foreign_keys (db s)"
          by (simp add: frame_def)
        with Some c0 st Message Stop show ?thesis
          by (simp add: handle_stop_def Let_def broadcast_def endSession_def split: prod.splits)
      qed
    qed
  qed
next
  case (HttpDelete sid)
  then show ?thesis by (simp add: http_delete_def deleteSession_def Let_def)
next
  case (HttpPatch sid nm)
  then show ?thesis by (simp add: http_patch_def updateSessionName_def Let_def)
next
  case (LookupDone k info uuid now loc)
  have "foreign_keys (db (start_after_lookup ws p nm info uuid now loc s')) = foreign_keys (db s')"
    for ws p nm s'
    by (auto simp: start_after_lookup_def Let_def start_call_def new_monitor_def spawn_def
        register_def broadcast_def invalid_message_def ws_send_def createSession_def
        split: option.split sum.split prod.split if_splits)
  with LookupDone show ?thesis
    by (simp split: option.split task.split)
next
  case (MonitorStartDone k info)
  have "db (start_after_monitor ws p se i h info s') = db s'" for ws p se i h s'
    by (simp add: start_after_monitor_def Let_def register_def broadcast_def invalid_message_def
        ws_send_def split: option.split sum.split prod.split)
  with MonitorStartDone show ?thesis
    by (simp split: option.split task.split)
next
  case (PollDone h res now)
  show ?thesis
  proof (cases "monitors s h")
    case None
    with PollDone show ?thesis by (simp add: poll_done_def)
  next
    case (Some c)
    obtain m s1 where pr: "poll_resume (cell_listeners c) res now (cfg c) s = (m, s1)"
      by (cases "poll_resume (cell_listeners c) res now (cfg c) s")
    from frame_poll_resume [of s c res now "cfg c"] pr
    have "foreign_keys (db s1) = foreign_keys (db s)" by (simp add: frame_def)
    with Some pr PollDone show ?thesis by (simp add: poll_done_def)
  qed
next
  case (TimerFired h t)
  then show ?thesis by (simp add: timer_fired_def split: option.split)
qed

lemma foreign_keys_run: "foreign_keys (db (run s evs)) = foreign_keys (db s)"
  unfolding run_def by (induction evs arbitrary: s) (simp_all add: foreign_keys_step)


text \<open>A halted monitor in the registry stays halted, and emits as a straggler does.\<close>

lemma halted_not_fresh: "halted m \<Longrightarrow> \<not> fresh m"
  by (simp add: halted_def fresh_def)

lemma step_halted:
  assumes inv: "registry_inv s" and c: "monitors s h = Some c" and hl: "halted (cfg c)"
  shows "\<exists>c'. monitors (step s ev) h = Some c' \<and> straggler_step False (cfg c) (cfg c')"
proof -
  have same: "\<exists>c'. x = Some c' \<and> straggler_step False (cfg c) (cfg c')"
    if "x = monitors s h" for x
    using that c hl by (simp add: straggler_step_refl)
  show ?thesis
  proof (cases ev)
    case (Message ws cm now)
    show ?thesis
    proof (cases cm)
      case (Start p nm)
      with Message same [of "monitors (step s ev) h"] show ?thesis
        by (simp add: monitors_handle_start)
    next
      case (Stop p)
      show ?thesis
      proof (cases "activeMonitors s p")
        case None
        with Message Stop same [of "monitors (step s ev) h"] show ?thesis
          by (simp add: monitors_handle_stop)
      next
        case (Some e)
        from registry_inv_activeD [OF inv Some] obtain c0
          where c0: "monitors s (monitor e) = Some c0" by blast
        show ?thesis
        proof (cases "monitor e = h")
          case True
          with c c0 have "c0 = c" by simp
          with Message Stop Some c0 True straggler_stop [OF hl, of _ "cell_listeners c" s]
          show ?thesis by (simp add: monitors_handle_stop)
        next
          case False
          with Message Stop Some c0 same [of "monitors (step s ev) h"] show ?thesis
            by (simp add: monitors_handle_stop)
        qed
      qed
    qed
  next
    case (HttpDelete sid)
    with same [of "monitors (step s ev) h"] show ?thesis by (simp add: http_delete_def)
  next
    case (HttpPatch sid nm)
    with same [of "monitors (step s ev) h"] show ?thesis by (simp add: http_patch_def)
  next
    case (LookupDone k info uuid now loc)
    from registry_inv_monitorD [OF inv c] have lt: "h < next_monitor s" by simp
    have "monitors (step s ev) h = monitors s h"
      using LookupDone lt
      by (simp add: monitors_start_after_lookup split: option.split task.split)
    from same [OF this] show ?thesis .
  next
    case (MonitorStartDone k info)
    have "monitors (step s ev) h = monitors s h"
    proof (cases "tasks s k")
      case None
      with MonitorStartDone show ?thesis by simp
    next
      case (Some t)
      show ?thesis
      proof (cases t)
        case (AwaitLookup ws p nm)
        with Some MonitorStartDone show ?thesis by simp
      next
        case (AwaitMonitorStart ws p se i h')
        with Some have t: "tasks s k = Some (AwaitMonitorStart ws p se i h')" by simp
        from registry_inv_taskD(1) [OF inv t] obtain c1
          where "monitors s h' = Some c1" "fresh (cfg c1)" by blast
        with c hl halted_not_fresh have "h \<noteq> h'" by auto
        with t MonitorStartDone show ?thesis
          by (simp add: monitors_start_after_monitor)
      qed
    qed
    from same [OF this] show ?thesis .
  next
    case (PollDone h' res now)
    show ?thesis
    proof (cases "h' = h \<and> polling (cfg c) \<noteq> 0")
      case True
      from straggler_poll_resume [OF hl, of "cell_listeners c" s res now] True
      have "straggler_step (\<forall>dp. fst (on_data (cell_listeners c) dp s) = None) (cfg c)
          (fst (poll_resume (cell_listeners c) res now (cfg c) s))" by simp
      then have "straggler_step False (cfg c)
          (fst (poll_resume (cell_listeners c) res now (cfg c) s))"
        by (rule straggler_step_weaken) simp
      with PollDone True c show ?thesis by (simp add: monitors_poll_done)
    next
      case False
      have "monitors (step s ev) h = monitors s h"
        using PollDone False c by (auto simp: monitors_poll_done split: option.split)
      from same [OF this] show ?thesis .
    qed
  next
    case (TimerFired h' t)
    from hl have "timers (cfg c) = []" by (simp add: halted_def)
    with c have "monitors (step s ev) h = monitors s h"
      using TimerFired by (auto simp: timer_fired_def split: option.split)
    from same [OF this] show ?thesis .
  qed
qed

lemma run_halted:
  assumes "registry_inv s" "monitors s h = Some c" "halted (cfg c)"
  shows "\<exists>c'. monitors (run s evs) h = Some c' \<and> straggler_step False (cfg c) (cfg c')"
  using assms
proof (induction evs arbitrary: s c)
  case Nil
  then show ?case by (simp add: run_def straggler_step_refl)
next
  case (Cons ev evs)
  from step_halted [OF Cons.prems, of ev] obtain c1
    where c1: "monitors (step s ev) h = Some c1"
      and s1: "straggler_step False (cfg c) (cfg c1)" by blast
  from s1 have h1: "halted (cfg c1)" by (simp add: straggler_step_def)
  from Cons.IH [OF registry_inv_step [OF Cons.prems(1)] c1 h1] obtain c2
    where c2: "monitors (run (step s ev) evs) h = Some c2"
      and s2: "straggler_step False (cfg c1) (cfg c2)" by blast
  from straggler_step_trans [OF s1 s2] c2 show ?case
    by (auto simp: run_def)
qed

text \<open>
  In every state the server reaches: the monitor of an active entry, and every monitor
  with a poll in flight, has one chain; and after a \<open>stop\<close> command the stopped monitor
  stays halted whatever happens, while at most the one poll in flight completes.
\<close>

lemma registry_stops_one_chain:
  assumes "s = run (init_server fk avg) evs0"
  shows "(activeMonitors s p = Some e \<longrightarrow>
            (\<exists>c. monitors s (monitor e) = Some c \<and> one_chain (cfg c))) \<and>
         (monitors s h = Some c \<and> polling (cfg c) \<noteq> 0 \<longrightarrow> one_chain (cfg c))"
proof -
  from assms have inv: "registry_inv s" by (simp add: registry_inv_reachable)
  have "one_chain (cfg c)" if "monitors s h = Some c" "polling (cfg c) \<noteq> 0"
    using registry_inv_monitorD [OF inv that(1)] that(2) by (auto simp: fresh_def)
  with registry_inv_activeD [OF inv] show ?thesis by blast
qed

lemma registry_stop_command:
  assumes s: "s = run (init_server fk avg) evs0" and e: "activeMonitors s p = Some e"
  shows "\<exists>c c1. monitors s (monitor e) = Some c \<and>
      monitors (step s (Message ws (Stop p) now)) (monitor e) = Some c1 \<and>
      emitted (cfg c1) = emitted (cfg c) @ [StoppedEv] \<and>
      polling (cfg c1) \<le> 1 \<and>
      (\<forall>evs. \<exists>c2. monitors (run (step s (Message ws (Stop p) now)) evs) (monitor e) = Some c2 \<and>
         \<not> isRunning (cfg c2) \<and> timers (cfg c2) = [] \<and>
         (\<exists>new. emitted (cfg c2) = emitted (cfg c1) @ new \<and>
            data_events new \<le> 1 \<and> error_events new \<le> 1))"
proof -
  let ?s1 = "step s (Message ws (Stop p) now)"
  from s have inv: "registry_inv s" by (simp add: registry_inv_reachable)
  from registry_inv_activeD [OF inv e] obtain c
    where c: "monitors s (monitor e) = Some c" and oc: "one_chain (cfg c)" by blast
  let ?m1 = "fst (stop (cell_listeners c) (cfg c) s)"
  let ?c1 = "c\<lparr>cfg := ?m1\<rparr>"
  have c1: "monitors ?s1 (monitor e) = Some ?c1"
    using e c by (simp add: monitors_handle_stop)
  from halted_stop [OF oc, of "cell_listeners c" s ?m1 "snd (stop (cell_listeners c) (cfg c) s)"]
  have h1: "halted ?m1" and p1: "polling ?m1 \<le> 1"
    and e1: "emitted ?m1 = emitted (cfg c) @ [StoppedEv]" by simp_all
  have inv1: "registry_inv ?s1" by (rule registry_inv_step [OF inv])
  have later: "\<exists>c2. monitors (run ?s1 evs) (monitor e) = Some c2 \<and>
         \<not> isRunning (cfg c2) \<and> timers (cfg c2) = [] \<and>
         (\<exists>new. emitted (cfg c2) = emitted (cfg ?c1) @ new \<and>
            data_events new \<le> 1 \<and> error_events new \<le> 1)" for evs
  proof -
    from run_halted [OF inv1 c1, of evs] h1 obtain c2
      where c2: "monitors (run ?s1 evs) (monitor e) = Some c2"
        and st: "straggler_step False ?m1 (cfg c2)" by auto
    from st obtain new where "halted (cfg c2)" "emitted (cfg c2) = emitted ?m1 @ new"
      "data_events new + polling (cfg c2) \<le> polling ?m1"
      "error_events new + polling (cfg c2) \<le> polling ?m1"
      unfolding straggler_step_def by blast
    with p1 have "\<not> isRunning (cfg c2) \<and> timers (cfg c2) = [] \<and>
         (\<exists>new. emitted (cfg c2) = emitted (cfg ?c1) @ new \<and>
            data_events new \<le> 1 \<and> error_events new \<le> 1)"
      by (auto simp: halted_def intro!: exI [of _ new])
    with c2 show ?thesis by blast
  qed
  from c c1 e1 p1 later show ?thesis by auto
qed

end
